theory Spec2Isabelle
  imports Main "HOL-Library.Multiset" "HOL-Library.Sublist"
begin

section \<open>Data model\<close>

text \<open>
  The chat front end keeps two zustand stores: \<open>useChatListStore\<close> (the list of chat
  sessions shown in the sidebar) and \<open>useChatStore\<close> (the active chat id and the messages
  of every chat). A JavaScript string is modelled as a \<open>string\<close>, one \<open>char\<close> per code
  unit; \<open>string | null\<close> is a \<open>string option\<close>. Timestamps (\<open>Date.now()\<close>,
  \<open>new Date()\<close>) are integers. The field \<open>id\<close> of both interfaces is suffixed, since
  \<open>id\<close> is the identity function of HOL.
\<close>

datatype Role = User | Assistant

record Message =
  id_msg :: string
  role :: Role
  content :: string
  timestamp :: int

record ChatSession =
  id_chat :: string
  title :: string
  createdAt :: int

text \<open>
  \<open>messagesByChatId\<close> is a plain object, declared \<open>Record<string, Message[]>\<close>. Its own
  properties are a partial map from keys to values. A value is an array of messages or,
  since a read goes through the prototype chain, the value \<open>Object.prototype\<close> has under
  a name: \<open>ProtoValue k\<close> is the value of \<open>Object.prototype[k]\<close>.
\<close>

datatype Value = Array "Message list" | ProtoValue string

record ChatListState =
  chats :: "ChatSession list"

record ChatState =
  activeChatId :: "string option"
  messagesByChatId :: "string \<rightharpoonup> Value"

text \<open>Both stores together: \<open>useChatStore\<close> writes to \<open>useChatListStore\<close>.\<close>

record Stores =
  chatListStore :: ChatListState
  chatStore :: ChatState

datatype error = TypeError

section \<open>Reading a plain object\<close>

text \<open>
  The properties of \<open>Object.prototype\<close> in ECMAScript, each with the \<open>length\<close> of its
  value: the number of parameters for the eleven functions, and none for \<open>__proto__\<close>,
  an accessor whose getter returns \<open>Object.prototype\<close> itself. All these values are
  truthy, none is iterable and none has a property \<open>map\<close>.
\<close>

definition objectPrototype :: "(string \<times> nat option) list" where
  "objectPrototype =
     [(''constructor'', Some 1), (''__defineGetter__'', Some 2), (''__defineSetter__'', Some 2),
      (''hasOwnProperty'', Some 1), (''__lookupGetter__'', Some 1), (''__lookupSetter__'', Some 1),
      (''isPrototypeOf'', Some 1), (''propertyIsEnumerable'', Some 1), (''toString'', Some 0),
      (''valueOf'', Some 0), (''__proto__'', None), (''toLocaleString'', Some 0)]"

text \<open>
  \<open>obj[key]\<close>: the own property if there is one, otherwise the property inherited from
  \<open>Object.prototype\<close>, otherwise \<open>undefined\<close> (\<open>None\<close>). A computed key in an object
  literal and \<open>delete\<close> act on own properties only, also for the key \<open>__proto__\<close>.
\<close>

definition getProperty :: "(string \<rightharpoonup> Value) \<Rightarrow> string \<Rightarrow> Value option" where
  "getProperty obj key =
     (case obj key of
        Some v \<Rightarrow> Some v
      | None \<Rightarrow> if key \<in> set (map fst objectPrototype) then Some (ProtoValue key) else None)"

text \<open>\<open>x || []\<close>: only \<open>undefined\<close> is falsy here; an array, even an empty one, is truthy.\<close>

fun orEmpty :: "Value option \<Rightarrow> Value" where
  "orEmpty None = Array []"
| "orEmpty (Some v) = v"

text \<open>\<open>x.length\<close>, \<open>None\<close> for \<open>undefined\<close>.\<close>

fun lengthOf :: "Value \<Rightarrow> nat option" where
  "lengthOf (Array msgs) = Some (length msgs)"
| "lengthOf (ProtoValue k) = (case map_of objectPrototype k of Some l \<Rightarrow> l | None \<Rightarrow> None)"

section \<open>useChatListStore\<close>

definition addChat :: "ChatSession \<Rightarrow> ChatListState \<Rightarrow> ChatListState" where
  "addChat chat state = state\<lparr>chats := chat # chats state\<rparr>"

definition renameChat :: "string \<Rightarrow> string \<Rightarrow> ChatListState \<Rightarrow> ChatListState" where
  "renameChat i t state =
     state\<lparr>chats := map (\<lambda>c. if id_chat c = i then c\<lparr>title := t\<rparr> else c) (chats state)\<rparr>"

definition clearAll :: "ChatListState \<Rightarrow> ChatListState" where
  "clearAll state = state\<lparr>chats := []\<rparr>"

definition deleteChat :: "string \<Rightarrow> ChatListState \<Rightarrow> ChatListState" where
  "deleteChat i state = state\<lparr>chats := filter (\<lambda>c. id_chat c \<noteq> i) (chats state)\<rparr>"

section \<open>useChatStore\<close>

text \<open>
  \<open>!id\<close> on a \<open>string | null\<close>: \<open>null\<close> and the empty string are falsy, every other
  string is truthy.
\<close>

fun falsy :: "string option \<Rightarrow> bool" where
  "falsy None = True"
| "falsy (Some s) = (s = [])"

text \<open>
  \<open>crypto.randomUUID()\<close> and \<open>Date.now()\<close> are the two inputs from outside: the
  operations that call them take their results as the arguments \<open>uuid\<close> and \<open>now\<close>.
\<close>

definition createNewChat :: "string \<Rightarrow> int \<Rightarrow> Stores \<Rightarrow> string \<times> Stores" where
  "createNewChat uuid now st =
     (let i = uuid;
          lst = addChat \<lparr>id_chat = i, title = ''New Chat'', createdAt = now\<rparr> (chatListStore st);
          state = chatStore st
      in (i, \<lparr>chatListStore = lst,
              chatStore = state\<lparr>activeChatId := Some i,
                                messagesByChatId := (messagesByChatId state)(i \<mapsto> Array [])\<rparr>\<rparr>))"

definition setActiveChat :: "string \<Rightarrow> Stores \<Rightarrow> Stores" where
  "setActiveChat i st =
     (let state = chatStore st
      in st\<lparr>chatStore :=
              state\<lparr>activeChatId := Some i,
                    messagesByChatId :=
                      (messagesByChatId state)(i \<mapsto> orEmpty (getProperty (messagesByChatId state) i))\<rparr>\<rparr>)"

text \<open>
  The first half of \<open>addMessage\<close>: the target id, and the session list after the
  auto-creation (\<open>if (!id) { id = crypto.randomUUID(); addChat(...) }\<close>).
\<close>

definition resolveChat ::
  "string option \<Rightarrow> string \<Rightarrow> int \<Rightarrow> ChatListState \<Rightarrow> string \<times> ChatListState" where
  "resolveChat chatId uuid now lst =
     (if falsy chatId
      then (uuid, addChat \<lparr>id_chat = uuid, title = ''New Chat'', createdAt = now\<rparr> lst)
      else (the chatId, lst))"

text \<open>
  \<open>addMessage\<close> gives the exception that leaves the updater, if any, and both stores
  after the call. The spread \<open>[...messages, message]\<close> throws a \<open>TypeError\<close> when
  \<open>messages\<close> is not an array; by then the calls to \<open>addChat\<close> and \<open>renameChat\<close> have
  changed the session list; zustand's \<open>set\<close> has assigned nothing to the message store.
\<close>

definition addMessage ::
  "string option \<Rightarrow> Message \<Rightarrow> string \<Rightarrow> int \<Rightarrow> Stores \<Rightarrow> error option \<times> Stores" where
  "addMessage chatId message uuid now st =
     (let state = chatStore st;
          (i, lst) = resolveChat chatId uuid now (chatListStore st);
          messages = orEmpty (getProperty (messagesByChatId state) i);
          lst' = (if role message = User \<and> lengthOf messages = Some 0
                  then renameChat i (take 40 (content message)) lst else lst)
      in case messages of
           Array msgs \<Rightarrow>
             (None, \<lparr>chatListStore = lst',
                     chatStore = state\<lparr>activeChatId := Some i,
                                       messagesByChatId :=
                                         (messagesByChatId state)(i \<mapsto> Array (msgs @ [message]))\<rparr>\<rparr>)
         | ProtoValue k \<Rightarrow> (Some TypeError, \<lparr>chatListStore = lst', chatStore = state\<rparr>))"

text \<open>
  \<open>updateMessage\<close> returns the state itself for a falsy chat id. Otherwise it calls
  \<open>.map\<close> on \<open>state.messagesByChatId[chatId]\<close>: for \<open>undefined\<close>, and for a value without
  \<open>map\<close>, the updater throws a \<open>TypeError\<close>. Only \<open>messagesByChatId\<close> is part of the
  returned partial state, so \<open>activeChatId\<close> keeps its value. \<open>editMessages\<close> is the
  \<open>.map\<close> over the messages of the chat.
\<close>

definition editMessages :: "string \<Rightarrow> string \<Rightarrow> Message list \<Rightarrow> Message list" where
  "editMessages i c msgs = map (\<lambda>msg. if id_msg msg = i then msg\<lparr>content := c\<rparr> else msg) msgs"

fun updateMessage :: "string option \<Rightarrow> string \<Rightarrow> string \<Rightarrow> Stores \<Rightarrow> error + Stores" where
  "updateMessage None i c st = Inr st"
| "updateMessage (Some chatId) i c st =
     (if chatId = [] then Inr st
      else (case getProperty (messagesByChatId (chatStore st)) chatId of
              None \<Rightarrow> Inl TypeError
            | Some (ProtoValue k) \<Rightarrow> Inl TypeError
            | Some (Array msgs) \<Rightarrow>
                Inr (st\<lparr>chatStore := (chatStore st)\<lparr>messagesByChatId :=
                      (messagesByChatId (chatStore st))(chatId \<mapsto> Array (editMessages i c msgs))\<rparr>\<rparr>)))"

definition clearChat :: "string \<Rightarrow> Stores \<Rightarrow> Stores" where
  "clearChat chatId st =
     (let copy = (messagesByChatId (chatStore st))(chatId := None)
      in st\<lparr>chatStore := (chatStore st)\<lparr>activeChatId := None, messagesByChatId := copy\<rparr>\<rparr>)"

definition clearAllChats :: "Stores \<Rightarrow> Stores" where
  "clearAllChats st =
     st\<lparr>chatStore := (chatStore st)\<lparr>activeChatId := None, messagesByChatId := Map.empty\<rparr>\<rparr>"

text \<open>
  One call on the stores. zustand's \<open>set(fn)\<close> evaluates \<open>fn(state)\<close> before it assigns
  anything, so an updater that throws leaves its own store as it was.
\<close>

datatype Op =
    CreateNewChat string int
  | SetActiveChat string
  | AddMessage "string option" Message string int
  | UpdateMessage "string option" string string
  | ClearChat string
  | ClearAllChats

fun step :: "Stores \<Rightarrow> Op \<Rightarrow> Stores" where
  "step st (CreateNewChat uuid now) = snd (createNewChat uuid now st)"
| "step st (SetActiveChat i) = setActiveChat i st"
| "step st (AddMessage chatId message uuid now) = snd (addMessage chatId message uuid now st)"
| "step st (UpdateMessage chatId i c) =
     (case updateMessage chatId i c st of Inl e \<Rightarrow> st | Inr st' \<Rightarrow> st')"
| "step st (ClearChat chatId) = clearChat chatId st"
| "step st ClearAllChats = clearAllChats st"

text \<open>\<open>crypto.randomUUID()\<close> returns a string of 36 characters, never the empty one.\<close>

fun uuidNonEmpty :: "Op \<Rightarrow> bool" where
  "uuidNonEmpty (CreateNewChat uuid now) = (uuid \<noteq> [])"
| "uuidNonEmpty (AddMessage chatId message uuid now) = (uuid \<noteq> [])"
| "uuidNonEmpty _ = True"

text \<open>The stores as created: no session, no active chat, no messages.\<close>

definition initial :: Stores where
  "initial = \<lparr>chatListStore = \<lparr>chats = []\<rparr>,
              chatStore = \<lparr>activeChatId = None, messagesByChatId = Map.empty\<rparr>\<rparr>"

text \<open>The states the operations produce from the stores as created.\<close>

inductive reachable :: "Stores \<Rightarrow> bool" where
  reachable_initial: "reachable initial"
| reachable_step: "reachable st \<Longrightarrow> uuidNonEmpty op \<Longrightarrow> reachable (step st op)"

section \<open>Search (SearchModal.tsx)\<close>

text \<open>
  The strings of the search are sequences of code units below 256. On these,
  \<open>String.prototype.trim\<close> and the class \<open>\s\<close> of a regular expression take the same
  code units as white space: TAB, LF, VT, FF, CR, SPACE and NO-BREAK SPACE.
\<close>

definition isWhiteSpace :: "char \<Rightarrow> bool" where
  "isWhiteSpace c = (of_char c \<in> {9, 10, 11, 12, 13, 32, 160 :: nat})"

text \<open>
  \<open>toLowerCase\<close>, code unit by code unit: the letters A to Z, and the letters from
  0xC0 to 0xDE other than the multiplication sign 0xD7, move up by 32.
\<close>

definition toLowerCase_char :: "char \<Rightarrow> char" where
  "toLowerCase_char c =
     (let n = of_char c :: nat
      in if (65 \<le> n \<and> n \<le> 90) \<or> (192 \<le> n \<and> n \<le> 222 \<and> n \<noteq> 215)
         then char_of (n + 32) else c)"

definition toLowerCase :: "string \<Rightarrow> string" where
  "toLowerCase s = map toLowerCase_char s"

definition trim :: "string \<Rightarrow> string" where
  "trim s = rev (dropWhile isWhiteSpace (rev (dropWhile isWhiteSpace s)))"

text \<open>
  \<open>s.split(/\s+/)\<close>: every maximal run of white space is one separator. White space at
  the start or at the end of \<open>s\<close> leaves an empty string at that end of the result, and
  the empty string splits into one empty string.
\<close>

function splitWhitespace :: "string \<Rightarrow> string list" where
  "splitWhitespace [] = [[]]"
| "splitWhitespace (c # cs) =
     (if isWhiteSpace c
      then [] # splitWhitespace (dropWhile isWhiteSpace cs)
      else (c # hd (splitWhitespace cs)) # tl (splitWhitespace cs))"
  by pat_completeness auto
termination
  by (relation "measure length") (auto simp: length_dropWhile_le le_imp_less_Suc)

text \<open>\<open>text.startsWith(token)\<close> and \<open>text.includes(token)\<close>.\<close>

definition startsWith :: "string \<Rightarrow> string \<Rightarrow> bool" where
  "startsWith text token = (take (length token) text = token)"

fun includes_str :: "string \<Rightarrow> string \<Rightarrow> bool" where
  "includes_str [] token = (token = [])"
| "includes_str (c # cs) token = (startsWith (c # cs) token \<or> includes_str cs token)"

text \<open>The function \<open>normalize\<close> of the source (the name is taken in HOL).\<close>

definition normalize_str :: "string \<Rightarrow> string" where
  "normalize_str s = trim (toLowerCase s)"

text \<open>\<open>scoreMatch\<close>: the \<open>for\<close> loop over the tokens, with the running score.\<close>

fun scoreMatch_loop :: "string \<Rightarrow> string list \<Rightarrow> int \<Rightarrow> int" where
  "scoreMatch_loop text [] score = score"
| "scoreMatch_loop text (token # tokens) score =
     (let score = (if includes_str text token then score + 10 else score);
          score = (if startsWith text token then score + 15 else score)
      in scoreMatch_loop text tokens score)"

definition scoreMatch :: "string \<Rightarrow> string list \<Rightarrow> int" where
  "scoreMatch text tokens = scoreMatch_loop text tokens 0"

text \<open>
  \<open>Array.prototype.sort\<close> with a comparator is stable (ECMAScript 2019): an element moves
  in front of another only if the comparator puts it strictly first. The model is the
  stable insertion sort, which puts an element before the first one it does not come
  after.
\<close>

fun insertBy :: "('a \<Rightarrow> 'a \<Rightarrow> int) \<Rightarrow> 'a \<Rightarrow> 'a list \<Rightarrow> 'a list" where
  "insertBy cmp x [] = [x]"
| "insertBy cmp x (y # ys) = (if cmp x y \<le> 0 then x # y # ys else y # insertBy cmp x ys)"

fun sortBy :: "('a \<Rightarrow> 'a \<Rightarrow> int) \<Rightarrow> 'a list \<Rightarrow> 'a list" where
  "sortBy cmp [] = []"
| "sortBy cmp (x # xs) = insertBy cmp x (sortBy cmp xs)"

text \<open>
  The object \<open>{ chat, score }\<close> and \<open>searchChats\<close> itself. Its parameter \<open>chats\<close> is
  \<open>sessions\<close> here: \<open>chats\<close> is the field of the session list.
\<close>

record Scored =
  chat :: ChatSession
  score :: int

definition searchChats :: "string \<Rightarrow> ChatSession list \<Rightarrow> ChatSession list" where
  "searchChats query sessions =
     (if trim query = [] then sessions
      else let tokens = splitWhitespace (normalize_str query)
           in map chat
                (sortBy (\<lambda>a b. score b - score a)
                   (filter (\<lambda>r. score r > 0)
                      (map (\<lambda>c. \<lparr>chat = c, score = scoreMatch (normalize_str (title c)) tokens\<rparr>)
                         sessions))))"

section \<open>Observations and example states\<close>

text \<open>
  The title the session list shows for a chat id: the title of the first entry with that
  id, if there is one.
\<close>

definition titleOf :: "ChatListState \<Rightarrow> string \<Rightarrow> string option" where
  "titleOf lst i = map_option title (find (\<lambda>c. id_chat c = i) (chats lst))"

text \<open>
  The active chat id, when it is not \<open>null\<close>, is a key of \<open>messagesByChatId\<close>.
\<close>

definition activeValid :: "Stores \<Rightarrow> bool" where
  "activeValid st =
     (case activeChatId (chatStore st) of
        None \<Rightarrow> True
      | Some a \<Rightarrow> messagesByChatId (chatStore st) a \<noteq> None)"

text \<open>Two messages and a state with two chats, for the concrete instances below.\<close>

definition exampleUser :: Message where
  "exampleUser = \<lparr>id_msg = ''1'', role = User, content = ''Hello'', timestamp = 5\<rparr>"

definition exampleAssistant :: Message where
  "exampleAssistant = \<lparr>id_msg = ''2'', role = Assistant, content = ''Hi there'', timestamp = 6\<rparr>"

definition exampleStores :: Stores where
  "exampleStores =
     \<lparr>chatListStore = \<lparr>chats = [\<lparr>id_chat = ''b'', title = ''Second'', createdAt = 2\<rparr>,
                                \<lparr>id_chat = ''a'', title = ''First'', createdAt = 1\<rparr>]\<rparr>,
      chatStore = \<lparr>activeChatId = Some ''a'',
                   messagesByChatId = [''a'' \<mapsto> Array [exampleUser, exampleAssistant],
                                       ''b'' \<mapsto> Array []]\<rparr>\<rparr>"

text \<open>A run of the store: two chats are created and the first gets two messages.\<close>

definition exampleOps :: "Op list" where
  "exampleOps =
     [CreateNewChat ''a'' 1,
      AddMessage (Some ''a'') exampleUser ''c'' 2,
      AddMessage (Some ''a'') exampleAssistant ''c'' 3,
      CreateNewChat ''b'' 4]"

text \<open>The empty string is not the key of a chat with messages.\<close>

definition emptyKeyFree :: "Stores \<Rightarrow> bool" where
  "emptyKeyFree st =
     (messagesByChatId (chatStore st) [] = None \<or> messagesByChatId (chatStore st) [] = Some (Array []))"

text \<open>
  For the statements on the search: the white space, the upper-case letters and their
  lower-case forms as tables of characters, and the string that tokens and separators
  give when they alternate.
\<close>

definition whiteSpace_spec :: string where
  "whiteSpace_spec = [CHR 0x09, CHR 0x0A, CHR 0x0B, CHR 0x0C, CHR 0x0D, CHR 0x20, CHR 0xA0]"

definition upperCase_spec :: string where
  "upperCase_spec = ''ABCDEFGHIJKLMNOPQRSTUVWXYZ'' @
     [CHR 0xC0, CHR 0xC1, CHR 0xC2, CHR 0xC3, CHR 0xC4, CHR 0xC5, CHR 0xC6, CHR 0xC7,
      CHR 0xC8, CHR 0xC9, CHR 0xCA, CHR 0xCB, CHR 0xCC, CHR 0xCD, CHR 0xCE, CHR 0xCF,
      CHR 0xD0, CHR 0xD1, CHR 0xD2, CHR 0xD3, CHR 0xD4, CHR 0xD5, CHR 0xD6,
      CHR 0xD8, CHR 0xD9, CHR 0xDA, CHR 0xDB, CHR 0xDC, CHR 0xDD, CHR 0xDE]"

definition lowerCase_spec :: string where
  "lowerCase_spec = ''abcdefghijklmnopqrstuvwxyz'' @
     [CHR 0xE0, CHR 0xE1, CHR 0xE2, CHR 0xE3, CHR 0xE4, CHR 0xE5, CHR 0xE6, CHR 0xE7,
      CHR 0xE8, CHR 0xE9, CHR 0xEA, CHR 0xEB, CHR 0xEC, CHR 0xED, CHR 0xEE, CHR 0xEF,
      CHR 0xF0, CHR 0xF1, CHR 0xF2, CHR 0xF3, CHR 0xF4, CHR 0xF5, CHR 0xF6,
      CHR 0xF8, CHR 0xF9, CHR 0xFA, CHR 0xFB, CHR 0xFC, CHR 0xFD, CHR 0xFE]"

definition lowerCaseOf_spec :: "char \<Rightarrow> char" where
  "lowerCaseOf_spec c =
     (case map_of (zip upperCase_spec lowerCase_spec) c of Some l \<Rightarrow> l | None \<Rightarrow> c)"

fun joinTokens :: "string list \<Rightarrow> string list \<Rightarrow> string" where
  "joinTokens (t # ts) (sep # seps) = t @ sep @ joinTokens ts seps"
| "joinTokens ts [] = concat ts"
| "joinTokens [] seps = []"

text \<open>The score \<open>searchChats\<close> gives a session for a query.\<close>

definition sessionScore :: "string \<Rightarrow> ChatSession \<Rightarrow> int" where
  "sessionScore query c = scoreMatch (normalize_str (title c)) (splitWhitespace (normalize_str query))"

text \<open>Session lists for the concrete instances of the search.\<close>

definition exampleSessions :: "ChatSession list" where
  "exampleSessions =
     [\<lparr>id_chat = ''1'', title = ''Apple'', createdAt = 3\<rparr>,
      \<lparr>id_chat = ''2'', title = ''Banana'', createdAt = 2\<rparr>,
      \<lparr>id_chat = ''3'', title = ''Cabbage'', createdAt = 1\<rparr>]"

definition exampleShuffled :: "ChatSession list" where
  "exampleShuffled =
     [\<lparr>id_chat = ''2'', title = ''Banana'', createdAt = 3\<rparr>,
      \<lparr>id_chat = ''1'', title = ''  APPLE pie'', createdAt = 2\<rparr>,
      \<lparr>id_chat = ''4'', title = ''Plum'', createdAt = 2\<rparr>,
      \<lparr>id_chat = ''3'', title = ''Cabbage'', createdAt = 1\<rparr>]"

section \<open>Theorems\<close>

subsection \<open>Helper lemmas on the session list and on \<open>addMessage\<close>\<close>

lemma find_rename:
  "map_option title (find (\<lambda>c. id_chat c = k) (map (\<lambda>c. if id_chat c = i then c\<lparr>title := t\<rparr> else c) xs))
      = (if k = i then map_option (\<lambda>_. t) (map_option title (find (\<lambda>c. id_chat c = k) xs))
         else map_option title (find (\<lambda>c. id_chat c = k) xs))"
  by (induction xs) auto

lemma titleOf_renameChat:
  "titleOf (renameChat i t lst) k = (if k = i then map_option (\<lambda>_. t) (titleOf lst k) else titleOf lst k)"
  by (simp add: titleOf_def renameChat_def find_rename)

lemma map_rename_titles:
  "c \<in> set (map (\<lambda>c. if id_chat c = i then c\<lparr>title := t\<rparr> else c) xs) \<Longrightarrow> id_chat c = i \<Longrightarrow> title c = t"
proof (induction xs)
  case Nil
  then show ?case by simp
next
  case (Cons x xs)
  show ?case
  proof (cases "c = (if id_chat x = i then x\<lparr>title := t\<rparr> else x)")
    case True
    with Cons.prems(2) show ?thesis by (cases "id_chat x = i") simp_all
  next
    case False
    with Cons.prems have "c \<in> set (map (\<lambda>c. if id_chat c = i then c\<lparr>title := t\<rparr> else c) xs)"
      by simp
    with Cons.IH Cons.prems(2) show ?thesis by blast
  qed
qed

lemma renameChat_titles:
  "c \<in> set (chats (renameChat i t lst)) \<Longrightarrow> id_chat c = i \<Longrightarrow> title c = t"
  using map_rename_titles [of c i t "chats lst"] by (simp add: renameChat_def)

lemma resolveChat_cases:
  assumes "resolveChat chatId uuid now l = (s, lst)"
  obtains (created) "falsy chatId" "s = uuid"
            "lst = addChat \<lparr>id_chat = uuid, title = ''New Chat'', createdAt = now\<rparr> l"
        | (given) "chatId = Some s" "s \<noteq> []" "lst = l"
proof (cases "falsy chatId")
  case True
  then have "fst (resolveChat chatId uuid now l) = uuid"
    "snd (resolveChat chatId uuid now l) = addChat \<lparr>id_chat = uuid, title = ''New Chat'', createdAt = now\<rparr> l"
    by (simp_all add: resolveChat_def)
  with assms have "s = uuid" "lst = addChat \<lparr>id_chat = uuid, title = ''New Chat'', createdAt = now\<rparr> l"
    by simp_all
  with True show ?thesis by (rule created)
next
  case False
  then obtain s' where s': "chatId = Some s'" "s' \<noteq> []" by (cases chatId) simp_all
  then have "fst (resolveChat chatId uuid now l) = s'" "snd (resolveChat chatId uuid now l) = l"
    by (simp_all add: resolveChat_def)
  with assms have "s = s'" "lst = l" by simp_all
  with s' show ?thesis by (intro given) simp_all
qed

lemma getProperty_own: "obj key = Some v \<Longrightarrow> getProperty obj key = Some v"
  by (simp add: getProperty_def)

lemma getProperty_undefined:
  "obj key = None \<Longrightarrow> key \<notin> set (map fst objectPrototype) \<Longrightarrow> getProperty obj key = None"
  by (simp add: getProperty_def)

lemma getProperty_inherited:
  "obj key = None \<Longrightarrow> key \<in> set (map fst objectPrototype) \<Longrightarrow>
     getProperty obj key = Some (ProtoValue key)"
  by (simp add: getProperty_def)

lemma empty_not_inherited: "[] \<notin> set (map fst objectPrototype)"
  by (simp add: objectPrototype_def)

text \<open>
  The sequence of a chat is \<open>msgs\<close>: the chat has the array \<open>msgs\<close> as own entry, or it
  has no entry, its id is no property of \<open>Object.prototype\<close>, and \<open>msgs\<close> is empty. Then
  the read of \<open>addMessage\<close> gives \<open>msgs\<close>.
\<close>

lemma read_sequence:
  assumes "m s = Some (Array msgs) \<or> (m s = None \<and> s \<notin> set (map fst objectPrototype) \<and> msgs = [])"
  shows "orEmpty (getProperty m s) = Array msgs"
  using assms
proof
  assume "m s = Some (Array msgs)"
  then show ?thesis by (simp add: getProperty_own)
next
  assume "m s = None \<and> s \<notin> set (map fst objectPrototype) \<and> msgs = []"
  then show ?thesis by (simp add: getProperty_undefined)
qed

lemma addMessage_returns:
  assumes "resolveChat chatId uuid now (chatListStore st) = (s, lst)"
      and "orEmpty (getProperty (messagesByChatId (chatStore st)) s) = Array msgs"
  shows "addMessage chatId m uuid now st =
           (None,
            \<lparr>chatListStore = (if role m = User \<and> msgs = []
                               then renameChat s (take 40 (content m)) lst else lst),
             chatStore = (chatStore st)\<lparr>activeChatId := Some s,
                            messagesByChatId :=
                              (messagesByChatId (chatStore st))(s \<mapsto> Array (msgs @ [m]))\<rparr>\<rparr>)"
  using assms by (simp add: addMessage_def Let_def)

lemma addMessage_throws:
  assumes "resolveChat chatId uuid now (chatListStore st) = (s, lst)"
      and "orEmpty (getProperty (messagesByChatId (chatStore st)) s) = ProtoValue k"
  shows "addMessage chatId m uuid now st =
           (Some TypeError,
            \<lparr>chatListStore = (if role m = User \<and> lengthOf (ProtoValue k) = Some 0
                               then renameChat s (take 40 (content m)) lst else lst),
             chatStore = chatStore st\<rparr>)"
  using assms by (simp add: addMessage_def Let_def)

lemma chatStore_addMessage_cases:
  "chatStore (snd (addMessage chatId m uuid now st)) = chatStore st
   \<or> (\<exists>s msgs. s = fst (resolveChat chatId uuid now (chatListStore st))
        \<and> chatStore (snd (addMessage chatId m uuid now st)) =
            (chatStore st)\<lparr>activeChatId := Some s,
               messagesByChatId := (messagesByChatId (chatStore st))(s \<mapsto> Array (msgs @ [m]))\<rparr>)"
proof -
  obtain s lst where r: "resolveChat chatId uuid now (chatListStore st) = (s, lst)"
    by (cases "resolveChat chatId uuid now (chatListStore st)")
  show ?thesis
  proof (cases "orEmpty (getProperty (messagesByChatId (chatStore st)) s)")
    case (Array msgs)
    have "chatStore (snd (addMessage chatId m uuid now st)) =
            (chatStore st)\<lparr>activeChatId := Some s,
               messagesByChatId := (messagesByChatId (chatStore st))(s \<mapsto> Array (msgs @ [m]))\<rparr>"
      by (simp add: addMessage_returns [OF r Array])
    with r show ?thesis by auto
  next
    case (ProtoValue k)
    have "chatStore (snd (addMessage chatId m uuid now st)) = chatStore st"
      by (simp add: addMessage_throws [OF r ProtoValue])
    then show ?thesis by simp
  qed
qed

subsection \<open>Helper lemmas on \<open>updateMessage\<close> and on the active chat id\<close>

lemma updateMessage_falsy: "falsy chatId \<Longrightarrow> updateMessage chatId i c st = Inr st"
  by (cases chatId) simp_all

lemma updateMessage_unknown:
  "chatId \<noteq> [] \<Longrightarrow> getProperty (messagesByChatId (chatStore st)) chatId = None \<Longrightarrow>
     updateMessage (Some chatId) i c st = Inl TypeError"
  by simp

lemma updateMessage_known:
  assumes "chatId \<noteq> []" and "messagesByChatId (chatStore st) chatId = Some (Array msgs)"
  shows "updateMessage (Some chatId) i c st =
           Inr (st\<lparr>chatStore := (chatStore st)\<lparr>messagesByChatId :=
                  (messagesByChatId (chatStore st))(chatId \<mapsto> Array (editMessages i c msgs))\<rparr>\<rparr>)"
  using assms by (simp add: getProperty_own)

lemma updateMessage_Inr:
  assumes "updateMessage chatId i c st = Inr st'"
  shows "st' = st
       \<or> (\<exists>s msgs. s \<noteq> [] \<and> messagesByChatId (chatStore st) s = Some (Array msgs)
            \<and> st' = st\<lparr>chatStore := (chatStore st)\<lparr>messagesByChatId :=
                  (messagesByChatId (chatStore st))(s \<mapsto> Array (editMessages i c msgs))\<rparr>\<rparr>)"
proof (cases "falsy chatId")
  case True
  with assms show ?thesis by (simp add: updateMessage_falsy)
next
  case False
  then obtain s where s: "chatId = Some s" "s \<noteq> []" by (cases chatId) simp_all
  show ?thesis
  proof (cases "messagesByChatId (chatStore st) s")
    case None
    with assms s show ?thesis by (simp add: getProperty_def split: if_splits)
  next
    case (Some v)
    show ?thesis
    proof (cases v)
      case (Array msgs)
      with Some have own: "messagesByChatId (chatStore st) s = Some (Array msgs)" by simp
      from assms have "st' = st\<lparr>chatStore := (chatStore st)\<lparr>messagesByChatId :=
                  (messagesByChatId (chatStore st))(s \<mapsto> Array (editMessages i c msgs))\<rparr>\<rparr>"
        unfolding s(1) updateMessage_known [OF s(2) own] by simp
      with s(2) own show ?thesis by blast
    next
      case (ProtoValue k)
      with Some assms s show ?thesis by (simp add: getProperty_own)
    qed
  qed
qed

lemma editMessages_nth:
  "k < length msgs \<Longrightarrow>
     editMessages i c msgs ! k = (if id_msg (msgs ! k) = i then (msgs ! k)\<lparr>content := c\<rparr> else msgs ! k)"
  by (simp add: editMessages_def)

lemma editMessages_distinct:
  assumes "distinct (map id_msg msgs)" and "k < length msgs" and "id_msg (msgs ! k) = i"
  shows "editMessages i c msgs = msgs[k := (msgs ! k)\<lparr>content := c\<rparr>]"
proof (rule nth_equalityI)
  show "length (editMessages i c msgs) = length (msgs[k := (msgs ! k)\<lparr>content := c\<rparr>])"
    by (simp add: editMessages_def)
next
  fix j assume "j < length (editMessages i c msgs)"
  then have j: "j < length msgs" by (simp add: editMessages_def)
  show "editMessages i c msgs ! j = msgs[k := (msgs ! k)\<lparr>content := c\<rparr>] ! j"
  proof (cases "j = k")
    case True
    with assms j show ?thesis by (simp add: editMessages_nth)
  next
    case False
    with assms j have "id_msg (msgs ! j) \<noteq> id_msg (msgs ! k)"
      using nth_eq_iff_index_eq [of "map id_msg msgs" j k] by simp
    with assms j False show ?thesis by (simp add: editMessages_nth)
  qed
qed

lemma activeValid_createNewChat: "activeValid (snd (createNewChat uuid now st))"
  by (simp add: activeValid_def createNewChat_def Let_def)

lemma activeValid_setActiveChat: "activeValid (setActiveChat i st)"
  by (simp add: activeValid_def setActiveChat_def Let_def)

lemma activeValid_addMessage:
  assumes "activeValid st"
  shows "activeValid (snd (addMessage chatId m uuid now st))"
  using chatStore_addMessage_cases [of chatId m uuid now st]
proof
  assume same: "chatStore (snd (addMessage chatId m uuid now st)) = chatStore st"
  show ?thesis using assms unfolding activeValid_def same .
next
  assume "\<exists>s msgs. s = fst (resolveChat chatId uuid now (chatListStore st))
        \<and> chatStore (snd (addMessage chatId m uuid now st)) =
            (chatStore st)\<lparr>activeChatId := Some s,
               messagesByChatId := (messagesByChatId (chatStore st))(s \<mapsto> Array (msgs @ [m]))\<rparr>"
  then obtain s msgs where "chatStore (snd (addMessage chatId m uuid now st)) =
            (chatStore st)\<lparr>activeChatId := Some s,
               messagesByChatId := (messagesByChatId (chatStore st))(s \<mapsto> Array (msgs @ [m]))\<rparr>"
    by blast
  then show ?thesis by (simp add: activeValid_def)
qed

lemma activeValid_updateMessage:
  assumes "activeValid st" and "updateMessage chatId i c st = Inr st'"
  shows "activeValid st'"
  using updateMessage_Inr [OF assms(2)]
proof
  assume "st' = st"
  with assms(1) show ?thesis by simp
next
  assume "\<exists>s msgs. s \<noteq> [] \<and> messagesByChatId (chatStore st) s = Some (Array msgs)
            \<and> st' = st\<lparr>chatStore := (chatStore st)\<lparr>messagesByChatId :=
                  (messagesByChatId (chatStore st))(s \<mapsto> Array (editMessages i c msgs))\<rparr>\<rparr>"
  then obtain s msgs where "st' = st\<lparr>chatStore := (chatStore st)\<lparr>messagesByChatId :=
                  (messagesByChatId (chatStore st))(s \<mapsto> Array (editMessages i c msgs))\<rparr>\<rparr>"
    by blast
  with assms(1) show ?thesis
    by (cases "activeChatId (chatStore st)") (simp_all add: activeValid_def)
qed

lemma activeValid_clearChat: "activeValid (clearChat chatId st)"
  by (simp add: activeValid_def clearChat_def)

lemma activeValid_clearAllChats: "activeValid (clearAllChats st)"
  by (simp add: activeValid_def clearAllChats_def)

lemma activeValid_step: "activeValid st \<Longrightarrow> activeValid (step st op)"
proof (cases op)
  case (UpdateMessage chatId i c)
  assume "activeValid st"
  then show ?thesis
    unfolding UpdateMessage
    by (cases "updateMessage chatId i c st") (simp_all add: activeValid_updateMessage)
qed (simp_all add: activeValid_createNewChat activeValid_setActiveChat activeValid_addMessage
       activeValid_clearChat activeValid_clearAllChats)

lemma activeValid_initial: "activeValid initial"
  by (simp add: activeValid_def initial_def)

lemma activeValid_reachable: "reachable st \<Longrightarrow> activeValid st"
  by (induction rule: reachable.induct) (simp_all add: activeValid_initial activeValid_step)

lemma reachable_foldl:
  "\<forall>op \<in> set ops. uuidNonEmpty op \<Longrightarrow> reachable (foldl step initial ops)"
proof (induction ops rule: rev_induct)
  case Nil
  show ?case by (simp add: reachable_initial)
next
  case (snoc op ops)
  then show ?case by (simp add: reachable_step)
qed

text \<open>
  No operation of the store puts a message under the empty string as key, as long as the
  generated ids are not empty.
\<close>

lemma resolveChat_nonempty:
  assumes "uuid \<noteq> []"
  shows "fst (resolveChat chatId uuid now l) \<noteq> []"
proof -
  obtain s lst where r: "resolveChat chatId uuid now l = (s, lst)"
    by (cases "resolveChat chatId uuid now l")
  from r assms have "s \<noteq> []" by (cases rule: resolveChat_cases) simp_all
  with r show ?thesis by simp
qed

lemma emptyKeyFree_addMessage:
  assumes "uuid \<noteq> []" and "emptyKeyFree st"
  shows "emptyKeyFree (snd (addMessage chatId m uuid now st))"
  using chatStore_addMessage_cases [of chatId m uuid now st]
proof
  assume same: "chatStore (snd (addMessage chatId m uuid now st)) = chatStore st"
  show ?thesis using assms(2) unfolding emptyKeyFree_def same .
next
  assume "\<exists>s msgs. s = fst (resolveChat chatId uuid now (chatListStore st))
        \<and> chatStore (snd (addMessage chatId m uuid now st)) =
            (chatStore st)\<lparr>activeChatId := Some s,
               messagesByChatId := (messagesByChatId (chatStore st))(s \<mapsto> Array (msgs @ [m]))\<rparr>"
  then obtain s msgs where s: "s = fst (resolveChat chatId uuid now (chatListStore st))"
    and c: "chatStore (snd (addMessage chatId m uuid now st)) =
            (chatStore st)\<lparr>activeChatId := Some s,
               messagesByChatId := (messagesByChatId (chatStore st))(s \<mapsto> Array (msgs @ [m]))\<rparr>"
    by blast
  from s assms(1) have "s \<noteq> []" by (simp add: resolveChat_nonempty)
  with assms(2) show ?thesis unfolding emptyKeyFree_def c by simp
qed

lemma emptyKeyFree_updateMessage:
  assumes "emptyKeyFree st" and "updateMessage chatId i c st = Inr st'"
  shows "emptyKeyFree st'"
  using updateMessage_Inr [OF assms(2)]
proof
  assume "st' = st"
  with assms(1) show ?thesis by simp
next
  assume "\<exists>s msgs. s \<noteq> [] \<and> messagesByChatId (chatStore st) s = Some (Array msgs)
            \<and> st' = st\<lparr>chatStore := (chatStore st)\<lparr>messagesByChatId :=
                  (messagesByChatId (chatStore st))(s \<mapsto> Array (editMessages i c msgs))\<rparr>\<rparr>"
  then obtain s msgs where "s \<noteq> []" and "st' = st\<lparr>chatStore := (chatStore st)\<lparr>messagesByChatId :=
                  (messagesByChatId (chatStore st))(s \<mapsto> Array (editMessages i c msgs))\<rparr>\<rparr>"
    by blast
  with assms(1) show ?thesis by (simp add: emptyKeyFree_def)
qed

lemma emptyKeyFree_step:
  assumes "uuidNonEmpty op" and "emptyKeyFree st"
  shows "emptyKeyFree (step st op)"
proof (cases op)
  case (CreateNewChat uuid now)
  with assms show ?thesis by (simp add: createNewChat_def Let_def emptyKeyFree_def)
next
  case (SetActiveChat i)
  show ?thesis
  proof (cases "i = []")
    case True
    from assms(2) have "orEmpty (getProperty (messagesByChatId (chatStore st)) []) = Array []"
      unfolding emptyKeyFree_def
    proof
      assume "messagesByChatId (chatStore st) [] = None"
      then show ?thesis by (simp add: getProperty_undefined [OF _ empty_not_inherited])
    next
      assume "messagesByChatId (chatStore st) [] = Some (Array [])"
      then show ?thesis by (simp add: getProperty_own)
    qed
    with True show ?thesis
      unfolding SetActiveChat by (simp add: setActiveChat_def Let_def emptyKeyFree_def)
  next
    case False
    with assms(2) show ?thesis
      unfolding SetActiveChat by (simp add: setActiveChat_def Let_def emptyKeyFree_def)
  qed
next
  case (AddMessage chatId m uuid now)
  with assms show ?thesis by (simp add: emptyKeyFree_addMessage)
next
  case (UpdateMessage chatId i c)
  with assms show ?thesis
    by (cases "updateMessage chatId i c st") (simp_all add: emptyKeyFree_updateMessage)
next
  case (ClearChat chatId)
  with assms show ?thesis by (cases "chatId = []") (simp_all add: clearChat_def emptyKeyFree_def)
next
  case ClearAllChats
  show ?thesis unfolding ClearAllChats by (simp add: clearAllChats_def emptyKeyFree_def)
qed

lemma emptyKeyFree_reachable: "reachable st \<Longrightarrow> emptyKeyFree st"
proof (induction rule: reachable.induct)
  case reachable_initial
  show ?case by (simp add: emptyKeyFree_def initial_def)
next
  case (reachable_step st op)
  then show ?case by (simp add: emptyKeyFree_step)
qed

lemma reachable_messages_key:
  assumes "reachable st" and "messagesByChatId (chatStore st) c = Some (Array msgs)" and "msgs \<noteq> []"
  shows "c \<noteq> []"
proof
  assume "c = []"
  with assms(2) have "messagesByChatId (chatStore st) [] = Some (Array msgs)" by simp
  with emptyKeyFree_reachable [OF assms(1)] assms(3) show False
    by (simp add: emptyKeyFree_def)
qed

subsection \<open>Claims on the message store\<close>

text \<open>
  C1: let \<open>s\<close> be the target chat of \<open>addMessage\<close>, \<open>lst\<close> the session list once the
  target is resolved (the given list for a given chat id; with the "New Chat" entry in front
  for a falsy one), and \<open>msgs\<close> the message sequence of \<open>s\<close> before the call (its array, or
  the empty sequence when \<open>s\<close> has no entry). Then the call returns and \<open>s\<close> has the
  sequence \<open>msgs\<close> followed by the message. If the message is a user message and \<open>msgs\<close> is
  empty, the session list is \<open>lst\<close> with the title of \<open>s\<close> replaced by the first 40
  characters of the content: a registered \<open>s\<close> shows that title, and every entry with id
  \<open>s\<close> has it. If the message is an assistant message, or \<open>msgs\<close> is not empty, the
  session list is \<open>lst\<close> unchanged.
\<close>

theorem C1_auto_rename:
  assumes "resolveChat chatId uuid now (chatListStore st) = (s, lst)"
      and "messagesByChatId (chatStore st) s = Some (Array msgs)
           \<or> (messagesByChatId (chatStore st) s = None
                \<and> s \<notin> set (map fst objectPrototype) \<and> msgs = [])"
  shows "fst (addMessage chatId m uuid now st) = None
       \<and> messagesByChatId (chatStore (snd (addMessage chatId m uuid now st))) s
           = Some (Array (msgs @ [m]))
       \<and> (role m = User \<and> msgs = [] \<longrightarrow>
            chatListStore (snd (addMessage chatId m uuid now st))
              = renameChat s (take 40 (content m)) lst
          \<and> titleOf (chatListStore (snd (addMessage chatId m uuid now st))) s
              = map_option (\<lambda>_. take 40 (content m)) (titleOf lst s)
          \<and> (\<forall>c \<in> set (chats (chatListStore (snd (addMessage chatId m uuid now st)))).
                id_chat c = s \<longrightarrow> title c = take 40 (content m)))
       \<and> (role m = Assistant \<or> msgs \<noteq> [] \<longrightarrow>
            chatListStore (snd (addMessage chatId m uuid now st)) = lst)
       \<and> (falsy chatId \<longrightarrow> s = uuid \<and> titleOf lst s = Some ''New Chat'')
       \<and> (\<not> falsy chatId \<longrightarrow> chatId = Some s \<and> lst = chatListStore st)"
proof -
  let ?after = "chatListStore (snd (addMessage chatId m uuid now st))"
  let ?t = "take 40 (content m)"
  note R = read_sequence [of "messagesByChatId (chatStore st)" s msgs, OF assms(2)]
  note A = addMessage_returns [OF assms(1) R, of m]
  have L: "?after = (if role m = User \<and> msgs = [] then renameChat s ?t lst else lst)"
    unfolding A by simp
  have 0: "fst (addMessage chatId m uuid now st) = None"
    unfolding A by simp
  have 1: "messagesByChatId (chatStore (snd (addMessage chatId m uuid now st))) s
           = Some (Array (msgs @ [m]))"
    unfolding A by simp
  have 2: "role m = User \<and> msgs = [] \<longrightarrow>
            ?after = renameChat s ?t lst
          \<and> titleOf ?after s = map_option (\<lambda>_. ?t) (titleOf lst s)
          \<and> (\<forall>c \<in> set (chats ?after). id_chat c = s \<longrightarrow> title c = ?t)"
  proof (intro impI)
    assume "role m = User \<and> msgs = []"
    with L have B: "?after = renameChat s ?t lst" by simp
    show "?after = renameChat s ?t lst
          \<and> titleOf ?after s = map_option (\<lambda>_. ?t) (titleOf lst s)
          \<and> (\<forall>c \<in> set (chats ?after). id_chat c = s \<longrightarrow> title c = ?t)"
      unfolding B using renameChat_titles [of _ s ?t lst] by (simp add: titleOf_renameChat)
  qed
  have 3: "role m = Assistant \<or> msgs \<noteq> [] \<longrightarrow> ?after = lst"
    unfolding L by (cases "role m") simp_all
  have 4: "falsy chatId \<longrightarrow> s = uuid \<and> titleOf lst s = Some ''New Chat''"
    using assms(1) by (cases rule: resolveChat_cases) (simp_all add: titleOf_def addChat_def)
  have 5: "\<not> falsy chatId \<longrightarrow> chatId = Some s \<and> lst = chatListStore st"
    using assms(1) by (cases rule: resolveChat_cases) simp_all
  from 0 1 2 3 4 5 show ?thesis by (intro conjI)
qed

theorem C1_auto_rename_witness:
  "resolveChat (Some ''b'') ''u1'' 9 (chatListStore exampleStores) = (''b'', chatListStore exampleStores)
   \<and> resolveChat (Some ''a'') ''u1'' 9 (chatListStore exampleStores) = (''a'', chatListStore exampleStores)
   \<and> messagesByChatId (chatStore exampleStores) ''b'' = Some (Array [])
   \<and> messagesByChatId (chatStore exampleStores) ''a'' = Some (Array [exampleUser, exampleAssistant])
   \<and> role exampleUser = User
   \<and> role exampleAssistant = Assistant
   \<and> titleOf (chatListStore exampleStores) ''b'' = Some ''Second''
   \<and> titleOf (chatListStore (snd (addMessage (Some ''b'') exampleUser ''u1'' 9 exampleStores))) ''b''
       = Some ''Hello''
   \<and> chatListStore (snd (addMessage (Some ''b'') exampleAssistant ''u1'' 9 exampleStores))
       = chatListStore exampleStores
   \<and> chatListStore (snd (addMessage (Some ''a'') exampleUser ''u1'' 9 exampleStores))
       = chatListStore exampleStores
   \<and> messagesByChatId (chatStore (snd (addMessage (Some ''a'') exampleUser ''u1'' 9 exampleStores))) ''a''
       = Some (Array ([exampleUser, exampleAssistant] @ [exampleUser]))"
proof -
  have rb: "resolveChat (Some ''b'') ''u1'' 9 (chatListStore exampleStores) = (''b'', chatListStore exampleStores)"
    by (simp add: resolveChat_def)
  have ra: "resolveChat (Some ''a'') ''u1'' 9 (chatListStore exampleStores) = (''a'', chatListStore exampleStores)"
    by (simp add: resolveChat_def)
  have b: "messagesByChatId (chatStore exampleStores) ''b'' = Some (Array [])"
    by (simp add: exampleStores_def)
  have a: "messagesByChatId (chatStore exampleStores) ''a'' = Some (Array [exampleUser, exampleAssistant])"
    by (simp add: exampleStores_def)
  have t: "titleOf (chatListStore exampleStores) ''b'' = Some ''Second''"
    by (simp add: exampleStores_def titleOf_def)
  have u: "role exampleUser = User" "take 40 (content exampleUser) = ''Hello''"
    by (simp_all add: exampleUser_def)
  have v: "role exampleAssistant = Assistant"
    by (simp add: exampleAssistant_def)
  have e: "([]::Message list) = []" by simp
  have n: "[exampleUser, exampleAssistant] \<noteq> []" by simp
  note cb = C1_auto_rename [OF rb disjI1 [OF b]]
  note ca = C1_auto_rename [OF ra disjI1 [OF a]]
  note cb [of exampleUser, THEN conjunct2, THEN conjunct2, THEN conjunct1, THEN mp, OF conjI [OF u(1) e],
      THEN conjunct2, THEN conjunct1]
  then have 1: "titleOf (chatListStore (snd (addMessage (Some ''b'') exampleUser ''u1'' 9 exampleStores))) ''b''
       = Some ''Hello''"
    by (simp add: u t)
  note 2 = cb [of exampleAssistant, THEN conjunct2, THEN conjunct2, THEN conjunct2, THEN conjunct1,
      THEN mp, OF disjI1 [OF v]]
  note 3 = ca [of exampleUser, THEN conjunct2, THEN conjunct2, THEN conjunct2, THEN conjunct1,
      THEN mp, OF disjI2 [OF n]]
  note 4 = ca [of exampleUser, THEN conjunct2, THEN conjunct1]
  from rb ra b a u(1) v t 1 2 3 4 show ?thesis by (intro conjI)
qed

text \<open>
  When the read gives a value inherited from \<open>Object.prototype\<close>, the call throws and the
  message store is as before; nothing is appended.
\<close>

lemma addMessage_inherited:
  assumes "resolveChat chatId uuid now (chatListStore st) = (s, lst)"
      and "messagesByChatId (chatStore st) s = None" and "s \<in> set (map fst objectPrototype)"
  shows "fst (addMessage chatId m uuid now st) = Some TypeError"
    and "chatStore (snd (addMessage chatId m uuid now st)) = chatStore st"
proof -
  have "orEmpty (getProperty (messagesByChatId (chatStore st)) s) = ProtoValue s"
    using assms(2,3) by (simp add: getProperty_inherited)
  note T = addMessage_throws [OF assms(1) this, of m]
  show "fst (addMessage chatId m uuid now st) = Some TypeError" unfolding T by simp
  show "chatStore (snd (addMessage chatId m uuid now st)) = chatStore st" unfolding T by simp
qed

text \<open>
  C2: \<open>addMessage\<close> with \<open>null\<close> as chat id, the generated id being fresh in the mapping
  (no entry, and not the name of a property of \<open>Object.prototype\<close>): the call returns;
  the session list gets exactly one more entry, registered as "New Chat" under the generated
  id before the auto-rename; the message is the only message of the new chat; the new chat
  is the active one; the entries of every other chat are as before.
\<close>

theorem C2_null_creates_session:
  assumes "messagesByChatId (chatStore st) uuid = None"
      and "uuid \<notin> set (map fst objectPrototype)"
  shows "fst (addMessage None m uuid now st) = None
       \<and> resolveChat None uuid now (chatListStore st)
           = (uuid, addChat \<lparr>id_chat = uuid, title = ''New Chat'', createdAt = now\<rparr> (chatListStore st))
       \<and> length (chats (chatListStore (snd (addMessage None m uuid now st))))
           = Suc (length (chats (chatListStore st)))
       \<and> (uuid \<notin> id_chat ` set (chats (chatListStore st)) \<longrightarrow>
            chats (chatListStore (snd (addMessage None m uuid now st)))
              = \<lparr>id_chat = uuid,
                 title = (if role m = User then take 40 (content m) else ''New Chat''),
                 createdAt = now\<rparr> # chats (chatListStore st))
       \<and> messagesByChatId (chatStore (snd (addMessage None m uuid now st))) uuid = Some (Array [m])
       \<and> activeChatId (chatStore (snd (addMessage None m uuid now st))) = Some uuid
       \<and> (\<forall>k. k \<noteq> uuid \<longrightarrow>
            messagesByChatId (chatStore (snd (addMessage None m uuid now st))) k
              = messagesByChatId (chatStore st) k)"
proof -
  let ?new = "\<lparr>id_chat = uuid, title = ''New Chat'', createdAt = now\<rparr>"
  have r: "resolveChat None uuid now (chatListStore st) = (uuid, addChat ?new (chatListStore st))"
    by (simp add: resolveChat_def)
  have e: "orEmpty (getProperty (messagesByChatId (chatStore st)) uuid) = Array []"
    using assms by (simp add: getProperty_undefined)
  note A = addMessage_returns [OF r e, of m]
  have 0: "fst (addMessage None m uuid now st) = None"
    unfolding A by simp
  have L: "chatListStore (snd (addMessage None m uuid now st))
             = (if role m = User then renameChat uuid (take 40 (content m)) (addChat ?new (chatListStore st))
                else addChat ?new (chatListStore st))"
    unfolding A by simp
  have S: "chatStore (snd (addMessage None m uuid now st))
             = (chatStore st)\<lparr>activeChatId := Some uuid,
                  messagesByChatId := (messagesByChatId (chatStore st))(uuid \<mapsto> Array [m])\<rparr>"
    unfolding A by simp
  have 2: "length (chats (chatListStore (snd (addMessage None m uuid now st))))
             = Suc (length (chats (chatListStore st)))"
    unfolding L by (simp add: renameChat_def addChat_def)
  have 3: "uuid \<notin> id_chat ` set (chats (chatListStore st)) \<longrightarrow>
            chats (chatListStore (snd (addMessage None m uuid now st)))
              = \<lparr>id_chat = uuid,
                 title = (if role m = User then take 40 (content m) else ''New Chat''),
                 createdAt = now\<rparr> # chats (chatListStore st)"
  proof
    assume "uuid \<notin> id_chat ` set (chats (chatListStore st))"
    then have "map (\<lambda>c. if id_chat c = uuid then c\<lparr>title := take 40 (content m)\<rparr> else c) (chats (chatListStore st))
                 = chats (chatListStore st)"
      by (intro map_idI) auto
    then show "chats (chatListStore (snd (addMessage None m uuid now st)))
              = \<lparr>id_chat = uuid,
                 title = (if role m = User then take 40 (content m) else ''New Chat''),
                 createdAt = now\<rparr> # chats (chatListStore st)"
      unfolding L by (cases "role m") (simp_all add: renameChat_def addChat_def)
  qed
  have 4: "messagesByChatId (chatStore (snd (addMessage None m uuid now st))) uuid = Some (Array [m])"
    unfolding S by simp
  have 5: "activeChatId (chatStore (snd (addMessage None m uuid now st))) = Some uuid"
    unfolding S by simp
  have 6: "\<forall>k. k \<noteq> uuid \<longrightarrow>
            messagesByChatId (chatStore (snd (addMessage None m uuid now st))) k
              = messagesByChatId (chatStore st) k"
    unfolding S by simp
  from 0 r 2 3 4 5 6 show ?thesis by (intro conjI)
qed

theorem C2_null_creates_session_witness:
  "messagesByChatId (chatStore exampleStores) ''u1'' = None
   \<and> ''u1'' \<notin> set (map fst objectPrototype)
   \<and> ''u1'' \<notin> id_chat ` set (chats (chatListStore exampleStores))
   \<and> fst (addMessage None exampleUser ''u1'' 9 exampleStores) = None
   \<and> chats (chatListStore (snd (addMessage None exampleUser ''u1'' 9 exampleStores)))
       = \<lparr>id_chat = ''u1'', title = ''Hello'', createdAt = 9\<rparr> # chats (chatListStore exampleStores)
   \<and> messagesByChatId (chatStore (snd (addMessage None exampleUser ''u1'' 9 exampleStores))) ''u1''
       = Some (Array [exampleUser])
   \<and> activeChatId (chatStore (snd (addMessage None exampleUser ''u1'' 9 exampleStores))) = Some ''u1''
   \<and> ''a'' \<noteq> ''u1''
   \<and> messagesByChatId (chatStore (snd (addMessage None exampleUser ''u1'' 9 exampleStores))) ''a''
       = Some (Array [exampleUser, exampleAssistant])"
proof -
  have f: "messagesByChatId (chatStore exampleStores) ''u1'' = None"
    by (simp add: exampleStores_def)
  have p: "''u1'' \<notin> set (map fst objectPrototype)"
    by (simp add: objectPrototype_def)
  have g: "''u1'' \<notin> id_chat ` set (chats (chatListStore exampleStores))"
    by (simp add: exampleStores_def)
  have u: "(if role exampleUser = User then take 40 (content exampleUser) else ''New Chat'') = ''Hello''"
    by (simp add: exampleUser_def)
  have k: "''a'' \<noteq> ''u1''" by simp
  have a: "messagesByChatId (chatStore exampleStores) ''a'' = Some (Array [exampleUser, exampleAssistant])"
    by (simp add: exampleStores_def)
  note c = C2_null_creates_session [OF f p, of exampleUser 9]
  note c0 = c [THEN conjunct1]
  note t = c [THEN conjunct2, THEN conjunct2, THEN conjunct2]
  note c3 = t [THEN conjunct1, THEN mp, OF g, unfolded u]
  note c4 = t [THEN conjunct2, THEN conjunct1]
  note c5 = t [THEN conjunct2, THEN conjunct2, THEN conjunct1]
  note c6 = t [THEN conjunct2, THEN conjunct2, THEN conjunct2, THEN spec, THEN mp, OF k, unfolded a]
  from f p g c0 c3 c4 c5 k c6 show ?thesis by (intro conjI)
qed

text \<open>
  C3: \<open>updateMessage\<close> on a chat id that is neither \<open>null\<close> nor empty and has no entry
  in the mapping is not a silent no-op: on the stores as created, with the unknown chat id
  "abc", the updater throws a \<open>TypeError\<close>. With \<open>null\<close> and with the empty string it
  returns the state as it is.
\<close>

theorem C3_updateMessage_unknown_chat_throws:
  "messagesByChatId (chatStore initial) ''abc'' = None
   \<and> updateMessage (Some ''abc'') ''1'' ''edited'' initial = Inl TypeError
   \<and> updateMessage None ''1'' ''edited'' initial = Inr initial
   \<and> updateMessage (Some []) ''1'' ''edited'' initial = Inr initial"
  by (simp add: initial_def getProperty_def objectPrototype_def)

text \<open>
  C4, as the code has it: after \<open>clearChat s\<close> the mapping has no entry for \<open>s\<close> and its
  other entries are as before, the active chat id is \<open>null\<close> whether or not \<open>s\<close> was the
  active chat, and the session list is not modified.
\<close>

theorem C4_clearChat:
  "messagesByChatId (chatStore (clearChat s st)) s = None
   \<and> messagesByChatId (chatStore (clearChat s st)) = (messagesByChatId (chatStore st))(s := None)
   \<and> dom (messagesByChatId (chatStore (clearChat s st))) = dom (messagesByChatId (chatStore st)) - {s}
   \<and> activeChatId (chatStore (clearChat s st)) = None
   \<and> chatListStore (clearChat s st) = chatListStore st"
  by (simp add: clearChat_def)

text \<open>
  The claim as stated fails: clearing the chat "b" while "a" is active resets the active
  chat id.
\<close>

theorem C4_clearChat_counterexample:
  "activeChatId (chatStore exampleStores) = Some ''a''
   \<and> ''b'' \<noteq> ''a''
   \<and> activeChatId (chatStore (clearChat ''b'' exampleStores)) \<noteq> activeChatId (chatStore exampleStores)"
  by (simp add: exampleStores_def clearChat_def)

text \<open>
  C5: \<open>createNewChat\<close>, the generated id being fresh in both stores: the id returned is the
  generated one; the session list is the former list with the entry of that id, the title
  "New Chat" and the current time in front (index 0); the active chat id is the returned id;
  the returned id has an empty message list; the messages of every chat known before are
  unchanged.
\<close>

theorem C5_createNewChat:
  assumes "uuid \<notin> dom (messagesByChatId (chatStore st))"
      and "uuid \<notin> id_chat ` set (chats (chatListStore st))"
  shows "fst (createNewChat uuid now st) = uuid
       \<and> fst (createNewChat uuid now st) \<notin> dom (messagesByChatId (chatStore st))
       \<and> fst (createNewChat uuid now st) \<notin> id_chat ` set (chats (chatListStore st))
       \<and> chats (chatListStore (snd (createNewChat uuid now st)))
            = \<lparr>id_chat = uuid, title = ''New Chat'', createdAt = now\<rparr> # chats (chatListStore st)
       \<and> chats (chatListStore (snd (createNewChat uuid now st))) ! 0
            = \<lparr>id_chat = fst (createNewChat uuid now st), title = ''New Chat'', createdAt = now\<rparr>
       \<and> activeChatId (chatStore (snd (createNewChat uuid now st))) = Some (fst (createNewChat uuid now st))
       \<and> messagesByChatId (chatStore (snd (createNewChat uuid now st))) (fst (createNewChat uuid now st))
            = Some (Array [])
       \<and> (\<forall>k \<in> dom (messagesByChatId (chatStore st)).
             messagesByChatId (chatStore (snd (createNewChat uuid now st))) k
               = messagesByChatId (chatStore st) k)"
proof -
  have r: "fst (createNewChat uuid now st) = uuid"
    by (simp add: createNewChat_def Let_def)
  have l: "chats (chatListStore (snd (createNewChat uuid now st)))
            = \<lparr>id_chat = uuid, title = ''New Chat'', createdAt = now\<rparr> # chats (chatListStore st)"
    by (simp add: createNewChat_def Let_def addChat_def)
  have a: "activeChatId (chatStore (snd (createNewChat uuid now st))) = Some uuid"
    by (simp add: createNewChat_def Let_def)
  have m: "messagesByChatId (chatStore (snd (createNewChat uuid now st)))
             = (messagesByChatId (chatStore st))(uuid \<mapsto> Array [])"
    by (simp add: createNewChat_def Let_def)
  have o: "\<forall>k \<in> dom (messagesByChatId (chatStore st)).
             messagesByChatId (chatStore (snd (createNewChat uuid now st))) k
               = messagesByChatId (chatStore st) k"
    unfolding m using assms(1) by auto
  show ?thesis
    unfolding r using assms l a o by (simp add: m)
qed

theorem C5_createNewChat_witness:
  "''u1'' \<notin> dom (messagesByChatId (chatStore exampleStores))
   \<and> ''u1'' \<notin> id_chat ` set (chats (chatListStore exampleStores))
   \<and> fst (createNewChat ''u1'' 9 exampleStores) = ''u1''
   \<and> chats (chatListStore (snd (createNewChat ''u1'' 9 exampleStores))) ! 0
         = \<lparr>id_chat = ''u1'', title = ''New Chat'', createdAt = 9\<rparr>
   \<and> activeChatId (chatStore (snd (createNewChat ''u1'' 9 exampleStores))) = Some ''u1''
   \<and> messagesByChatId (chatStore (snd (createNewChat ''u1'' 9 exampleStores))) ''u1'' = Some (Array [])
   \<and> ''a'' \<in> dom (messagesByChatId (chatStore exampleStores))
   \<and> messagesByChatId (chatStore (snd (createNewChat ''u1'' 9 exampleStores))) ''a''
         = Some (Array [exampleUser, exampleAssistant])"
proof -
  have f: "''u1'' \<notin> dom (messagesByChatId (chatStore exampleStores))"
    by (simp add: exampleStores_def)
  have g: "''u1'' \<notin> id_chat ` set (chats (chatListStore exampleStores))"
    by (simp add: exampleStores_def)
  have a: "messagesByChatId (chatStore exampleStores) ''a'' = Some (Array [exampleUser, exampleAssistant])"
    by (simp add: exampleStores_def)
  then have d: "''a'' \<in> dom (messagesByChatId (chatStore exampleStores))"
    by (rule domI)
  note c = C5_createNewChat [OF f g, of 9]
  note c1 = c [THEN conjunct1]
  note t = c [THEN conjunct2, THEN conjunct2, THEN conjunct2]
  note c5 = t [THEN conjunct2, THEN conjunct1, unfolded c1]
  note c6 = t [THEN conjunct2, THEN conjunct2, THEN conjunct1, unfolded c1]
  note c7 = t [THEN conjunct2, THEN conjunct2, THEN conjunct2, THEN conjunct1, unfolded c1]
  note c8 = t [THEN conjunct2, THEN conjunct2, THEN conjunct2, THEN conjunct2, THEN bspec, OF d, unfolded a]
  from f g c1 c5 c6 c7 d c8 show ?thesis by (intro conjI)
qed

text \<open>
  C8: in a state the store has reached, for a chat \<open>c\<close> whose message ids are distinct
  and a message with id \<open>i\<close> at index \<open>k\<close> of its sequence, \<open>updateMessage\<close> returns; the
  sequence of \<open>c\<close> keeps its length; the message at index \<open>k\<close> has the new content and
  its id, role and timestamp as before; every other message of \<open>c\<close> is unchanged; the
  entry of every other chat, the active chat id and the session list are unchanged.
\<close>

theorem C8_updateMessage_frame:
  assumes "reachable st"
      and "messagesByChatId (chatStore st) c = Some (Array msgs)"
      and "k < length msgs" and "id_msg (msgs ! k) = i"
      and "distinct (map id_msg msgs)"
  shows "\<exists>st' msgs'.
           updateMessage (Some c) i newContent st = Inr st'
         \<and> messagesByChatId (chatStore st') c = Some (Array msgs')
         \<and> length msgs' = length msgs
         \<and> content (msgs' ! k) = newContent
         \<and> id_msg (msgs' ! k) = id_msg (msgs ! k)
         \<and> role (msgs' ! k) = role (msgs ! k)
         \<and> timestamp (msgs' ! k) = timestamp (msgs ! k)
         \<and> (\<forall>j < length msgs. j \<noteq> k \<longrightarrow> msgs' ! j = msgs ! j)
         \<and> (\<forall>other. other \<noteq> c \<longrightarrow>
               messagesByChatId (chatStore st') other = messagesByChatId (chatStore st) other)
         \<and> activeChatId (chatStore st') = activeChatId (chatStore st)
         \<and> chatListStore st' = chatListStore st"
proof -
  let ?msgs' = "msgs[k := (msgs ! k)\<lparr>content := newContent\<rparr>]"
  let ?st' = "st\<lparr>chatStore := (chatStore st)\<lparr>messagesByChatId :=
                  (messagesByChatId (chatStore st))(c \<mapsto> Array ?msgs')\<rparr>\<rparr>"
  from assms(3) have "msgs \<noteq> []" by auto
  with assms(1,2) have c: "c \<noteq> []" by (rule reachable_messages_key)
  have e: "editMessages i newContent msgs = ?msgs'"
    using assms(5,3,4) by (rule editMessages_distinct)
  have 1: "updateMessage (Some c) i newContent st = Inr ?st'"
    unfolding updateMessage_known [OF c assms(2)] e by simp
  have 2: "messagesByChatId (chatStore ?st') c = Some (Array ?msgs')" by simp
  have 3: "length ?msgs' = length msgs" by simp
  have 4: "content (?msgs' ! k) = newContent" using assms(3) by simp
  have 5: "id_msg (?msgs' ! k) = id_msg (msgs ! k)" using assms(3) by simp
  have 6: "role (?msgs' ! k) = role (msgs ! k)" using assms(3) by simp
  have 7: "timestamp (?msgs' ! k) = timestamp (msgs ! k)" using assms(3) by simp
  have 8: "\<forall>j < length msgs. j \<noteq> k \<longrightarrow> ?msgs' ! j = msgs ! j" by simp
  have 9: "\<forall>other. other \<noteq> c \<longrightarrow>
               messagesByChatId (chatStore ?st') other = messagesByChatId (chatStore st) other"
    by simp
  have 10: "activeChatId (chatStore ?st') = activeChatId (chatStore st)" by simp
  have 11: "chatListStore ?st' = chatListStore st" by simp
  from 1 2 3 4 5 6 7 8 9 10 11 show ?thesis by blast
qed

lemma exampleOps_state:
  "messagesByChatId (chatStore (foldl step initial exampleOps)) ''a''
     = Some (Array [exampleUser, exampleAssistant])"
  "messagesByChatId (chatStore (foldl step initial exampleOps)) ''b'' = Some (Array [])"
  "activeChatId (chatStore (foldl step initial exampleOps)) = Some ''b''"
  by (simp_all add: exampleOps_def initial_def createNewChat_def addMessage_def resolveChat_def
        getProperty_def Let_def)

theorem C8_updateMessage_frame_witness:
  "reachable (foldl step initial exampleOps)
   \<and> messagesByChatId (chatStore (foldl step initial exampleOps)) ''a''
       = Some (Array [exampleUser, exampleAssistant])
   \<and> 0 < length [exampleUser, exampleAssistant]
   \<and> id_msg ([exampleUser, exampleAssistant] ! 0) = ''1''
   \<and> distinct (map id_msg [exampleUser, exampleAssistant])
   \<and> (\<exists>st' msgs'. updateMessage (Some ''a'') ''1'' ''edited'' (foldl step initial exampleOps) = Inr st'
         \<and> messagesByChatId (chatStore st') ''a'' = Some (Array msgs')
         \<and> length msgs' = 2
         \<and> content (msgs' ! 0) = ''edited''
         \<and> msgs' ! 1 = exampleAssistant
         \<and> messagesByChatId (chatStore st') ''b'' = Some (Array [])
         \<and> activeChatId (chatStore st') = Some ''b'')"
proof -
  let ?st = "foldl step initial exampleOps"
  have r: "reachable ?st"
    by (rule reachable_foldl) (simp add: exampleOps_def)
  note a = exampleOps_state(1)
  have k: "0 < length [exampleUser, exampleAssistant]" by simp
  have i: "id_msg ([exampleUser, exampleAssistant] ! 0) = ''1''"
    by (simp add: exampleUser_def)
  have d: "distinct (map id_msg [exampleUser, exampleAssistant])"
    by (simp add: exampleUser_def exampleAssistant_def)
  from C8_updateMessage_frame [OF r a k i d, of "''edited''"]
  obtain st' msgs' where
    1: "updateMessage (Some ''a'') ''1'' ''edited'' ?st = Inr st'"
    and 2: "messagesByChatId (chatStore st') ''a'' = Some (Array msgs')"
    and 3: "length msgs' = length [exampleUser, exampleAssistant]"
    and 4: "content (msgs' ! 0) = ''edited''"
    and 8: "\<forall>j < length [exampleUser, exampleAssistant]. j \<noteq> 0 \<longrightarrow>
              msgs' ! j = [exampleUser, exampleAssistant] ! j"
    and 9: "\<forall>other. other \<noteq> ''a'' \<longrightarrow>
               messagesByChatId (chatStore st') other = messagesByChatId (chatStore ?st) other"
    and 10: "activeChatId (chatStore st') = activeChatId (chatStore ?st)"
    by blast
  from 3 have l3: "length msgs' = 2" by simp
  from 8 [THEN spec, of 1] have m8: "msgs' ! 1 = exampleAssistant" by simp
  from 9 [THEN spec, of "''b''"] have o9: "messagesByChatId (chatStore st') ''b'' = Some (Array [])"
    by (simp add: exampleOps_state(2))
  from 10 have a10: "activeChatId (chatStore st') = Some ''b''"
    by (simp add: exampleOps_state(3))
  from 1 2 l3 4 m8 o9 a10
  have "\<exists>st' msgs'. updateMessage (Some ''a'') ''1'' ''edited'' ?st = Inr st'
         \<and> messagesByChatId (chatStore st') ''a'' = Some (Array msgs')
         \<and> length msgs' = 2
         \<and> content (msgs' ! 0) = ''edited''
         \<and> msgs' ! 1 = exampleAssistant
         \<and> messagesByChatId (chatStore st') ''b'' = Some (Array [])
         \<and> activeChatId (chatStore st') = Some ''b''"
    by blast
  with r a k i d show ?thesis by (intro conjI)
qed

text \<open>
  \<open>setActiveChat\<close> on an id that is no property of \<open>Object.prototype\<close>: the id becomes
  the active one, an id without entry gets the empty sequence, a known id keeps its entry,
  and all other entries are unchanged.
\<close>

lemma setActiveChat_entries:
  "activeChatId (chatStore (setActiveChat i st)) = Some i"
  "messagesByChatId (chatStore st) i = None \<Longrightarrow> i \<notin> set (map fst objectPrototype) \<Longrightarrow>
     messagesByChatId (chatStore (setActiveChat i st)) i = Some (Array [])"
  "messagesByChatId (chatStore st) i = Some v \<Longrightarrow>
     messagesByChatId (chatStore (setActiveChat i st)) i = Some v"
  "k \<noteq> i \<Longrightarrow>
     messagesByChatId (chatStore (setActiveChat i st)) k = messagesByChatId (chatStore st) k"
  by (simp_all add: setActiveChat_def Let_def getProperty_undefined getProperty_own)

text \<open>
  C9: \<open>setActiveChat\<close> does not give every unknown id the empty sequence. On the stores
  as created, the id "constructor" has no entry; the read finds the function that
  \<open>Object.prototype\<close> has under that name, which is truthy, and \<open>setActiveChat\<close> stores
  it as the entry of the chat, where the claim has the empty sequence. (The active id is a
  key of the mapping all the same.)
\<close>

theorem C9_setActiveChat_inherited_value:
  "messagesByChatId (chatStore initial) ''constructor'' = None
   \<and> messagesByChatId (chatStore (setActiveChat ''constructor'' initial)) ''constructor''
       = Some (ProtoValue ''constructor'')
   \<and> messagesByChatId (chatStore (setActiveChat ''constructor'' initial)) ''constructor''
       \<noteq> Some (Array [])
   \<and> activeChatId (chatStore (setActiveChat ''constructor'' initial)) = Some ''constructor''"
  by (simp add: initial_def setActiveChat_def Let_def getProperty_def objectPrototype_def)



subsection \<open>Helper lemmas on the search\<close>

lemma isWhiteSpace_toLowerCase_char: "isWhiteSpace (toLowerCase_char c) = isWhiteSpace c"
proof -
  define n where "n = (of_char c :: nat)"
  have "n < 256" unfolding n_def by simp
  show ?thesis
  proof (cases "(65 \<le> n \<and> n \<le> 90) \<or> (192 \<le> n \<and> n \<le> 222 \<and> n \<noteq> 215)")
    case True
    have l: "toLowerCase_char c = char_of (n + 32)"
      unfolding toLowerCase_char_def Let_def n_def [symmetric] using True by (rule if_P)
    from True have "(of_char (char_of (n + 32)) :: nat) = n + 32" by auto
    with True have "\<not> isWhiteSpace (char_of (n + 32))"
      by (auto simp: isWhiteSpace_def)
    moreover from True have "\<not> isWhiteSpace c"
      by (auto simp: isWhiteSpace_def n_def [symmetric])
    ultimately show ?thesis by (simp add: l)
  next
    case False
    have "toLowerCase_char c = c"
      unfolding toLowerCase_char_def Let_def n_def [symmetric] using False by (rule if_not_P)
    then show ?thesis by simp
  qed
qed

lemma trim_toLowerCase: "trim (toLowerCase s) = toLowerCase (trim s)"
proof -
  have c: "isWhiteSpace \<circ> toLowerCase_char = isWhiteSpace"
    by (rule ext) (simp add: isWhiteSpace_toLowerCase_char)
  show ?thesis
    by (simp add: trim_def toLowerCase_def dropWhile_map rev_map c)
qed

lemma trim_eq_Nil: "trim s = [] \<longleftrightarrow> (\<forall>c \<in> set s. isWhiteSpace c)"
proof
  assume "trim s = []"
  then have "\<forall>c \<in> set (dropWhile isWhiteSpace s). isWhiteSpace c"
    by (simp add: trim_def)
  then have "dropWhile isWhiteSpace s = []"
    using hd_dropWhile [of isWhiteSpace s] hd_in_set [of "dropWhile isWhiteSpace s"] by blast
  then show "\<forall>c \<in> set s. isWhiteSpace c" by simp
next
  assume "\<forall>c \<in> set s. isWhiteSpace c"
  then have d: "dropWhile isWhiteSpace s = []" by simp
  show "trim s = []" unfolding trim_def d by simp
qed

lemma normalize_eq_Nil: "normalize_str s = [] \<longleftrightarrow> trim s = []"
  unfolding normalize_str_def trim_toLowerCase by (simp add: toLowerCase_def)

lemma last_dropWhile: "dropWhile P xs \<noteq> [] \<Longrightarrow> last (dropWhile P xs) = last xs"
  by (induction xs) (auto split: if_splits)

lemma trim_ends:
  assumes "trim s \<noteq> []"
  shows "\<not> isWhiteSpace (hd (trim s))" and "\<not> isWhiteSpace (last (trim s))"
proof -
  let ?d = "dropWhile isWhiteSpace s"
  let ?e = "dropWhile isWhiteSpace (rev ?d)"
  from assms have e: "?e \<noteq> []" by (simp add: trim_def)
  have d: "?d \<noteq> []"
  proof
    assume z: "?d = []"
    have "?e = []" unfolding z by simp
    with e show False by contradiction
  qed
  have "hd (trim s) = last ?e" using e by (simp add: trim_def hd_rev)
  also have "\<dots> = last (rev ?d)" using e by (rule last_dropWhile)
  also have "\<dots> = hd ?d" using d by (simp add: last_rev)
  finally show "\<not> isWhiteSpace (hd (trim s))" using hd_dropWhile [OF d] by simp
  have "last (trim s) = hd ?e" using e by (simp add: trim_def last_rev)
  then show "\<not> isWhiteSpace (last (trim s))" using hd_dropWhile [OF e] by simp
qed

lemma normalize_ends:
  assumes "normalize_str s \<noteq> []"
  shows "\<not> isWhiteSpace (hd (normalize_str s))" and "\<not> isWhiteSpace (last (normalize_str s))"
  using assms trim_ends [of "toLowerCase s"] by (simp_all add: normalize_str_def)

lemma splitWhitespace_not_Nil: "splitWhitespace s \<noteq> []"
  by (cases s) simp_all

lemma hd_splitWhitespace_mem: "hd (splitWhitespace s) \<in> set (splitWhitespace s)"
  by (rule hd_in_set) (rule splitWhitespace_not_Nil)

lemma splitWhitespace_no_whitespace:
  "t \<in> set (splitWhitespace s) \<Longrightarrow> c \<in> set t \<Longrightarrow> \<not> isWhiteSpace c"
proof (induction s arbitrary: t rule: splitWhitespace.induct)
  case 1
  then show ?case by simp
next
  case (2 d ds)
  show ?case
  proof (cases "isWhiteSpace d")
    case True
    with "2.prems" have "t \<in> set (splitWhitespace (dropWhile isWhiteSpace ds))" by auto
    with "2.IH"(1) [OF True] "2.prems"(2) show ?thesis by blast
  next
    case False
    with "2.prems"(1) have "t = d # hd (splitWhitespace ds) \<or> t \<in> set (tl (splitWhitespace ds))"
      by simp
    then show ?thesis
    proof
      assume t: "t = d # hd (splitWhitespace ds)"
      with "2.prems"(2) have "c = d \<or> c \<in> set (hd (splitWhitespace ds))" by simp
      with False "2.IH"(2) [OF False hd_splitWhitespace_mem] show ?thesis by blast
    next
      assume "t \<in> set (tl (splitWhitespace ds))"
      then have "t \<in> set (splitWhitespace ds)" by (rule list.set_sel(2) [rotated]) (rule splitWhitespace_not_Nil)
      with "2.IH"(2) [OF False] "2.prems"(2) show ?thesis by blast
    qed
  qed
qed

lemma filter_dropWhile_not: "filter (\<lambda>c. \<not> P c) (dropWhile P xs) = filter (\<lambda>c. \<not> P c) xs"
  by (induction xs) simp_all

lemma concat_splitWhitespace:
  "concat (splitWhitespace s) = filter (\<lambda>c. \<not> isWhiteSpace c) s"
proof (induction s rule: splitWhitespace.induct)
  case 1
  show ?case by simp
next
  case (2 d ds)
  show ?case
  proof (cases "isWhiteSpace d")
    case True
    with "2.IH"(1) show ?thesis by (simp add: filter_dropWhile_not)
  next
    case False
    have "concat (splitWhitespace ds) = hd (splitWhitespace ds) @ concat (tl (splitWhitespace ds))"
      using splitWhitespace_not_Nil [of ds] by (cases "splitWhitespace ds") simp_all
    with False "2.IH"(2) show ?thesis by simp
  qed
qed

lemma hd_splitWhitespace:
  "hd (splitWhitespace s) = [] \<longleftrightarrow> s = [] \<or> isWhiteSpace (hd s)"
  by (cases s) simp_all

lemma mem_hd_or_tl: "x \<in> set xs \<Longrightarrow> x = hd xs \<or> x \<in> set (tl xs)"
  by (cases xs) auto

lemma tl_splitWhitespace:
  "[] \<in> set (tl (splitWhitespace s)) \<Longrightarrow> s \<noteq> [] \<and> isWhiteSpace (last s)"
proof (induction s rule: splitWhitespace.induct)
  case 1
  then show ?case by simp
next
  case (2 d ds)
  let ?r = "dropWhile isWhiteSpace ds"
  show ?case
  proof (cases "isWhiteSpace d")
    case True
    with "2.prems" have "[] \<in> set (splitWhitespace ?r)" by simp
    then have "hd (splitWhitespace ?r) = [] \<or> [] \<in> set (tl (splitWhitespace ?r))"
      using mem_hd_or_tl [of "[]" "splitWhitespace ?r"] by auto
    then show ?thesis
    proof
      assume "hd (splitWhitespace ?r) = []"
      then have "?r = [] \<or> isWhiteSpace (hd ?r)" by (simp only: hd_splitWhitespace)
      with hd_dropWhile [of isWhiteSpace ds] have e: "?r = []" by blast
      then have "\<forall>x \<in> set ds. isWhiteSpace x" by simp
      with True have "isWhiteSpace (last (d # ds))" by (cases "ds = []") simp_all
      then show ?thesis by simp
    next
      assume "[] \<in> set (tl (splitWhitespace ?r))"
      with "2.IH"(1) [OF True] have r: "?r \<noteq> []" "isWhiteSpace (last ?r)" by simp_all
      from r(1) have "last ?r = last ds" by (rule last_dropWhile)
      moreover from r(1) have "ds \<noteq> []" by auto
      ultimately show ?thesis using r(2) by simp
    qed
  next
    case False
    with "2.prems" have "[] \<in> set (tl (splitWhitespace ds))" by simp
    with "2.IH"(2) [OF False] have "ds \<noteq> [] \<and> isWhiteSpace (last ds)" by simp
    then show ?thesis by simp
  qed
qed

lemma splitWhitespace_no_empty_token:
  assumes "s \<noteq> []" and "\<not> isWhiteSpace (hd s)" and "\<not> isWhiteSpace (last s)"
  shows "[] \<notin> set (splitWhitespace s)"
proof
  assume m: "[] \<in> set (splitWhitespace s)"
  from assms have "hd (splitWhitespace s) \<noteq> []" by (simp add: hd_splitWhitespace)
  with m have "[] \<in> set (tl (splitWhitespace s))"
    using mem_hd_or_tl [of "[]" "splitWhitespace s"] by auto
  with tl_splitWhitespace [of s] assms show False by simp
qed

lemma startsWith_prefix: "startsWith text token \<longleftrightarrow> prefix token text"
proof
  assume "startsWith text token"
  then have "token = take (length token) text" by (simp add: startsWith_def)
  then show "prefix token text" using take_is_prefix [of "length token" "text"] by simp
next
  assume "prefix token text"
  then obtain zs where "text = token @ zs" by (auto simp: prefix_def)
  then show "startsWith text token" by (simp add: startsWith_def)
qed

lemma includes_sublist: "includes_str text token \<longleftrightarrow> sublist token text"
  by (induction "text") (simp_all add: sublist_Cons_right startsWith_prefix)

lemma scoreMatch_loop_sum:
  "scoreMatch_loop text tokens acc =
     acc + (\<Sum>t\<leftarrow>tokens. (if sublist t text then 10 else 0) + (if prefix t text then 15 else 0))"
  by (induction tokens arbitrary: acc) (simp_all add: Let_def includes_sublist startsWith_prefix)

lemma scoreMatch_sum:
  "scoreMatch text tokens =
     (\<Sum>t\<leftarrow>tokens. (if sublist t text then 10 else 0) + (if prefix t text then 15 else 0))"
  by (simp add: scoreMatch_def scoreMatch_loop_sum)

lemma insertBy_insort_key:
  "insertBy (\<lambda>a b. f b - f a) x ys = insort_key (\<lambda>r. - f r) x ys"
  by (induction ys) simp_all

lemma sortBy_sort_key: "sortBy (\<lambda>a b. f b - f a) xs = sort_key (\<lambda>r. - f r) xs"
  by (induction xs) (simp_all add: insertBy_insort_key)

lemma insort_key_map: "insort_key f (g x) (map g ys) = map g (insort_key (\<lambda>a. f (g a)) x ys)"
  by (induction ys) simp_all

lemma sort_key_map: "sort_key f (map g xs) = map g (sort_key (\<lambda>a. f (g a)) xs)"
  by (induction xs) (simp_all add: insort_key_map)

lemma searchChats_sort_key:
  assumes "trim query \<noteq> []"
  shows "searchChats query sessions =
           sort_key (\<lambda>c. - sessionScore query c) (filter (\<lambda>c. 0 < sessionScore query c) sessions)"
proof -
  let ?mk = "\<lambda>c. \<lparr>chat = c, score = sessionScore query c\<rparr>"
  have "searchChats query sessions =
          map chat (sortBy (\<lambda>a b. score b - score a) (filter (\<lambda>r. score r > 0) (map ?mk sessions)))"
    using assms by (simp add: searchChats_def sessionScore_def Let_def)
  also have "filter (\<lambda>r. score r > 0) (map ?mk sessions)
               = map ?mk (filter (\<lambda>c. 0 < sessionScore query c) sessions)"
    by (simp add: filter_map comp_def)
  also have "map chat (sortBy (\<lambda>a b. score b - score a) (map ?mk (filter (\<lambda>c. 0 < sessionScore query c) sessions)))
               = sort_key (\<lambda>c. - sessionScore query c) (filter (\<lambda>c. 0 < sessionScore query c) sessions)"
    by (simp add: sortBy_sort_key sort_key_map comp_def)
  finally show ?thesis .
qed

lemma tokens_of_query:
  assumes "trim query \<noteq> []"
  shows "splitWhitespace (normalize_str query) \<noteq> []"
    and "\<forall>t \<in> set (splitWhitespace (normalize_str query)). t \<noteq> [] \<and> (\<forall>c \<in> set t. \<not> isWhiteSpace c)"
    and "concat (splitWhitespace (normalize_str query))
           = filter (\<lambda>c. \<not> isWhiteSpace c) (normalize_str query)"
proof -
  from assms have n: "normalize_str query \<noteq> []" by (simp add: normalize_eq_Nil)
  show "splitWhitespace (normalize_str query) \<noteq> []" by (rule splitWhitespace_not_Nil)
  have "[] \<notin> set (splitWhitespace (normalize_str query))"
    using n normalize_ends [OF n] by (rule splitWhitespace_no_empty_token)
  then show "\<forall>t \<in> set (splitWhitespace (normalize_str query)). t \<noteq> [] \<and> (\<forall>c \<in> set t. \<not> isWhiteSpace c)"
    using splitWhitespace_no_whitespace by blast
  show "concat (splitWhitespace (normalize_str query))
           = filter (\<lambda>c. \<not> isWhiteSpace c) (normalize_str query)"
    by (rule concat_splitWhitespace)
qed

lemma isWhiteSpace_spec: "isWhiteSpace c \<longleftrightarrow> c \<in> set whiteSpace_spec"
proof -
  have "\<forall>c. isWhiteSpace c \<longleftrightarrow> c \<in> set whiteSpace_spec"
    by code_simp
  then show ?thesis by blast
qed

lemma toLowerCase_char_spec: "toLowerCase_char c = lowerCaseOf_spec c"
proof -
  have "\<forall>c. toLowerCase_char c = lowerCaseOf_spec c"
    by code_simp
  then show ?thesis by blast
qed

lemma toLowerCase_spec: "toLowerCase s = map lowerCaseOf_spec s"
  by (simp add: toLowerCase_def toLowerCase_char_spec)

lemma trim_decomposition:
  "\<exists>pre post. s = pre @ trim s @ post
     \<and> (\<forall>c \<in> set pre. isWhiteSpace c) \<and> (\<forall>c \<in> set post. isWhiteSpace c)"
proof -
  let ?d = "dropWhile isWhiteSpace s"
  let ?pre = "takeWhile isWhiteSpace s"
  let ?post = "rev (takeWhile isWhiteSpace (rev ?d))"
  have "trim s @ ?post
          = rev (takeWhile isWhiteSpace (rev ?d) @ dropWhile isWhiteSpace (rev ?d))"
    by (simp only: trim_def rev_append)
  also have "\<dots> = rev (rev ?d)"
    by (simp only: takeWhile_dropWhile_id)
  finally have "?d = trim s @ ?post" by simp
  moreover have "s = ?pre @ ?d" by simp
  ultimately have 1: "s = ?pre @ trim s @ ?post" by simp
  have 2: "\<forall>c \<in> set ?pre. isWhiteSpace c" by (blast dest: set_takeWhileD)
  have 3: "\<forall>c \<in> set ?post. isWhiteSpace c" by (auto dest: set_takeWhileD)
  from 1 2 3 show ?thesis by blast
qed

lemma normalize_decomposition:
  "\<exists>pre post. map lowerCaseOf_spec s = pre @ normalize_str s @ post
     \<and> (\<forall>c \<in> set pre. isWhiteSpace c) \<and> (\<forall>c \<in> set post. isWhiteSpace c)
     \<and> (normalize_str s \<noteq> [] \<longrightarrow>
          \<not> isWhiteSpace (hd (normalize_str s)) \<and> \<not> isWhiteSpace (last (normalize_str s)))"
proof -
  from trim_decomposition [of "toLowerCase s"]
  obtain pre post where "toLowerCase s = pre @ trim (toLowerCase s) @ post"
    and "\<forall>c \<in> set pre. isWhiteSpace c" and "\<forall>c \<in> set post. isWhiteSpace c"
    by blast
  then have "map lowerCaseOf_spec s = pre @ normalize_str s @ post
     \<and> (\<forall>c \<in> set pre. isWhiteSpace c) \<and> (\<forall>c \<in> set post. isWhiteSpace c)"
    by (simp add: normalize_str_def toLowerCase_spec [symmetric])
  moreover have "normalize_str s \<noteq> [] \<longrightarrow>
          \<not> isWhiteSpace (hd (normalize_str s)) \<and> \<not> isWhiteSpace (last (normalize_str s))"
    using normalize_ends [of s] by blast
  ultimately show ?thesis by blast
qed

lemma joinTokens_Cons_char: "joinTokens ((c # t) # ts) seps = c # joinTokens (t # ts) seps"
  by (cases seps) simp_all

lemma splitWhitespace_join:
  "\<exists>seps. length (splitWhitespace s) = Suc (length seps)
     \<and> (\<forall>sep \<in> set seps. sep \<noteq> [] \<and> (\<forall>c \<in> set sep. isWhiteSpace c))
     \<and> joinTokens (splitWhitespace s) seps = s"
proof (induction s rule: splitWhitespace.induct)
  case 1
  have "length (splitWhitespace []) = Suc (length ([]::string list))
     \<and> (\<forall>sep \<in> set ([]::string list). sep \<noteq> [] \<and> (\<forall>c \<in> set sep. isWhiteSpace c))
     \<and> joinTokens (splitWhitespace []) [] = []"
    by simp
  then show ?case by blast
next
  case (2 d ds)
  show ?case
  proof (cases "isWhiteSpace d")
    case True
    let ?r = "dropWhile isWhiteSpace ds"
    let ?sep = "d # takeWhile isWhiteSpace ds"
    from "2.IH"(1) [OF True] obtain seps where
      l: "length (splitWhitespace ?r) = Suc (length seps)"
      and w: "\<forall>sep \<in> set seps. sep \<noteq> [] \<and> (\<forall>c \<in> set sep. isWhiteSpace c)"
      and j: "joinTokens (splitWhitespace ?r) seps = ?r"
      by blast
    have s: "splitWhitespace (d # ds) = [] # splitWhitespace ?r"
      using True by simp
    have 1: "length (splitWhitespace (d # ds)) = Suc (length (?sep # seps))"
      unfolding s using l by simp
    have "\<forall>c \<in> set ?sep. isWhiteSpace c"
      using True by (auto dest: set_takeWhileD)
    with w have 2: "\<forall>sep \<in> set (?sep # seps). sep \<noteq> [] \<and> (\<forall>c \<in> set sep. isWhiteSpace c)"
      by simp
    have 3: "joinTokens (splitWhitespace (d # ds)) (?sep # seps) = d # ds"
      unfolding s using j by simp
    from 1 2 3 show ?thesis by blast
  next
    case False
    from "2.IH"(2) [OF False] obtain seps where
      l: "length (splitWhitespace ds) = Suc (length seps)"
      and w: "\<forall>sep \<in> set seps. sep \<noteq> [] \<and> (\<forall>c \<in> set sep. isWhiteSpace c)"
      and j: "joinTokens (splitWhitespace ds) seps = ds"
      by blast
    obtain t ts where r: "splitWhitespace ds = t # ts"
      using splitWhitespace_not_Nil [of ds] by (cases "splitWhitespace ds") simp_all
    have s: "splitWhitespace (d # ds) = (d # t) # ts"
      using False r by simp
    have 1: "length (splitWhitespace (d # ds)) = Suc (length seps)"
      unfolding s using l r by simp
    have 3: "joinTokens (splitWhitespace (d # ds)) seps = d # ds"
      unfolding s joinTokens_Cons_char using j r by simp
    from 1 w 3 show ?thesis by blast
  qed
qed

subsection \<open>Claims on the search\<close>

text \<open>
  C6: for a query whose trimmed form is not empty. White space is the seven characters of
  the table. The normal form of a string is its lower-case form (by the table of letters)
  without the white space before and after it. The tokens are the pieces of the normal
  form of the query between its runs of white space: the normal form is the tokens
  alternating with non-empty separators of white space, and no token is empty or contains
  white space. The score of a session is the sum over the tokens of 10 for a token that is
  a substring of the normal form of the title plus 15 for a token that is a prefix of it
  (25 for a prefix). The result holds exactly the sessions with a positive score, in
  descending order of score, and the sessions of one score are in the order they have in
  the input.
\<close>

theorem C6_search_ranking:
  assumes "trim query \<noteq> []"
  shows "(\<forall>c. isWhiteSpace c \<longleftrightarrow> c \<in> set whiteSpace_spec)
       \<and> (\<forall>s. \<exists>pre post. map lowerCaseOf_spec s = pre @ normalize_str s @ post
              \<and> (\<forall>c \<in> set pre. isWhiteSpace c) \<and> (\<forall>c \<in> set post. isWhiteSpace c)
              \<and> (normalize_str s \<noteq> [] \<longrightarrow>
                   \<not> isWhiteSpace (hd (normalize_str s))
                 \<and> \<not> isWhiteSpace (last (normalize_str s))))
       \<and> (\<exists>seps. length (splitWhitespace (normalize_str query)) = Suc (length seps)
              \<and> (\<forall>sep \<in> set seps. sep \<noteq> [] \<and> (\<forall>c \<in> set sep. isWhiteSpace c))
              \<and> joinTokens (splitWhitespace (normalize_str query)) seps = normalize_str query)
       \<and> splitWhitespace (normalize_str query) \<noteq> []
       \<and> (\<forall>t \<in> set (splitWhitespace (normalize_str query)).
              t \<noteq> [] \<and> (\<forall>c \<in> set t. \<not> isWhiteSpace c))
       \<and> concat (splitWhitespace (normalize_str query))
           = filter (\<lambda>c. \<not> isWhiteSpace c) (normalize_str query)
       \<and> (\<forall>c. sessionScore query c =
              (\<Sum>t\<leftarrow>splitWhitespace (normalize_str query).
                  (if sublist t (normalize_str (title c)) then 10 else 0)
                + (if prefix t (normalize_str (title c)) then 15 else 0)))
       \<and> (\<forall>t text. prefix t text \<longrightarrow> scoreMatch text [t] = 25)
       \<and> mset (searchChats query sessions)
           = filter_mset (\<lambda>c. 0 < sessionScore query c) (mset sessions)
       \<and> sorted_wrt (\<lambda>a b. sessionScore query a \<ge> sessionScore query b) (searchChats query sessions)
       \<and> (\<forall>k. filter (\<lambda>c. sessionScore query c = k) (searchChats query sessions)
              = (if 0 < k then filter (\<lambda>c. sessionScore query c = k) sessions else []))"
proof -
  note S = searchChats_sort_key [OF assms, of sessions]
  let ?pos = "filter (\<lambda>c. 0 < sessionScore query c) sessions"
  have 1: "\<forall>c. isWhiteSpace c \<longleftrightarrow> c \<in> set whiteSpace_spec"
    by (simp add: isWhiteSpace_spec)
  have 2: "\<forall>s. \<exists>pre post. map lowerCaseOf_spec s = pre @ normalize_str s @ post
              \<and> (\<forall>c \<in> set pre. isWhiteSpace c) \<and> (\<forall>c \<in> set post. isWhiteSpace c)
              \<and> (normalize_str s \<noteq> [] \<longrightarrow>
                   \<not> isWhiteSpace (hd (normalize_str s))
                 \<and> \<not> isWhiteSpace (last (normalize_str s)))"
    using normalize_decomposition by blast
  note 3 = splitWhitespace_join [of "normalize_str query"]
  have 4: "\<forall>c. sessionScore query c =
              (\<Sum>t\<leftarrow>splitWhitespace (normalize_str query).
                  (if sublist t (normalize_str (title c)) then 10 else 0)
                + (if prefix t (normalize_str (title c)) then 15 else 0))"
    by (simp add: sessionScore_def scoreMatch_sum)
  have 5: "\<forall>t text. prefix t text \<longrightarrow> scoreMatch text [t] = 25"
    by (simp add: scoreMatch_sum)
  have 6: "mset (searchChats query sessions)
           = filter_mset (\<lambda>c. 0 < sessionScore query c) (mset sessions)"
    unfolding S by simp
  have "sorted (map (\<lambda>c. - sessionScore query c) (sort_key (\<lambda>c. - sessionScore query c) ?pos))"
    by (rule sorted_sort_key)
  then have 7: "sorted_wrt (\<lambda>a b. sessionScore query a \<ge> sessionScore query b) (searchChats query sessions)"
    unfolding S by (simp add: sorted_map)
  have 8: "\<forall>k. filter (\<lambda>c. sessionScore query c = k) (searchChats query sessions)
              = (if 0 < k then filter (\<lambda>c. sessionScore query c = k) sessions else [])"
  proof
    fix k
    have "filter (\<lambda>c. sessionScore query c = k) (searchChats query sessions)
            = filter (\<lambda>c. - sessionScore query c = - k) (sort_key (\<lambda>c. - sessionScore query c) ?pos)"
      unfolding S by simp
    also have "\<dots> = filter (\<lambda>c. - sessionScore query c = - k) ?pos"
      by (rule sort_key_stable)
    also have "\<dots> = (if 0 < k then filter (\<lambda>c. sessionScore query c = k) sessions else [])"
      by (auto intro: filter_cong)
    finally show "filter (\<lambda>c. sessionScore query c = k) (searchChats query sessions)
              = (if 0 < k then filter (\<lambda>c. sessionScore query c = k) sessions else [])" .
  qed
  from 1 2 3 tokens_of_query [OF assms] 4 5 6 7 8 show ?thesis by (intro conjI)
qed

theorem C6_search_ranking_witness:
  "trim '' A  pi '' \<noteq> []
   \<and> normalize_str '' A  pi '' = ''a  pi''
   \<and> splitWhitespace (normalize_str '' A  pi '') = [''a'', ''pi'']
   \<and> map (sessionScore '' A  pi '') exampleShuffled = [10, 35, 0, 10]
   \<and> map id_chat (searchChats '' A  pi '' exampleShuffled) = [''1'', ''2'', ''3'']
   \<and> (\<exists>seps. length (splitWhitespace (normalize_str '' A  pi '')) = Suc (length seps)
          \<and> (\<forall>sep \<in> set seps. sep \<noteq> [] \<and> (\<forall>c \<in> set sep. isWhiteSpace c))
          \<and> joinTokens (splitWhitespace (normalize_str '' A  pi '')) seps = normalize_str '' A  pi '')
   \<and> sorted_wrt (\<lambda>a b. sessionScore '' A  pi '' a \<ge> sessionScore '' A  pi '' b)
         (searchChats '' A  pi '' exampleShuffled)
   \<and> filter (\<lambda>c. sessionScore '' A  pi '' c = 10) (searchChats '' A  pi '' exampleShuffled)
       = filter (\<lambda>c. sessionScore '' A  pi '' c = 10) exampleShuffled"
proof -
  have h: "trim '' A  pi '' \<noteq> []" by code_simp
  have n: "normalize_str '' A  pi '' = ''a  pi''" by code_simp
  have t: "splitWhitespace (normalize_str '' A  pi '') = [''a'', ''pi'']" by code_simp
  have s: "map (sessionScore '' A  pi '') exampleShuffled = [10, 35, 0, 10]" by code_simp
  have r: "map id_chat (searchChats '' A  pi '' exampleShuffled) = [''1'', ''2'', ''3'']" by code_simp
  note c = C6_search_ranking [OF h, of exampleShuffled]
  note c3 = c [THEN conjunct2, THEN conjunct2, THEN conjunct1]
  note d = c [THEN conjunct2, THEN conjunct2, THEN conjunct2, THEN conjunct2, THEN conjunct2,
              THEN conjunct2, THEN conjunct2, THEN conjunct2, THEN conjunct2]
  note c10 = d [THEN conjunct1]
  note c11 = d [THEN conjunct2, THEN spec, of 10]
  have p: "(0::int) < 10" by simp
  note c11' = c11 [unfolded if_P [OF p]]
  from h n t s r c3 c10 c11' show ?thesis by (intro conjI)
qed

text \<open>
  The example of the specification: the token "a" against the titles Apple, Banana and
  Cabbage scores 25, 10 and 10, and the result keeps Banana before Cabbage.
\<close>

lemma search_example:
  "map title (searchChats ''a'' exampleSessions) = [''Apple'', ''Banana'', ''Cabbage'']"
  "map (sessionScore ''a'') exampleSessions = [25, 10, 10]"
  by code_simp+

text \<open>
  C7: for a query whose trimmed form is empty, \<open>searchChats\<close> returns the list of sessions
  it was given, the same elements in the same order.
\<close>

theorem C7_empty_query:
  assumes "trim query = []"
  shows "searchChats query sessions = sessions"
  using assms by (simp add: searchChats_def)

theorem C7_empty_query_witness:
  "trim ''  '' = [] \<and> searchChats ''  '' exampleSessions = exampleSessions"
proof -
  have h: "trim ''  '' = []" by code_simp
  from h C7_empty_query [OF h, of exampleSessions] show ?thesis by (intro conjI)
qed

end
